theory Spec2Isabelle
  imports Main "HOL-Library.Sublist"
begin

section \<open>JavaScript strings\<close>

text \<open>
  A JavaScript string is modelled as a \<^typ>\<open>string\<close>: a list of code units, here the
  code units below 256. The string methods that \<^verbatim>\<open>convert-nuget.js\<close> calls are
  translated one by one.
\<close>

text \<open>\<^verbatim>\<open>s.includes(t)\<close>: \<open>t\<close> occurs in \<open>s\<close> as a contiguous run.\<close>

fun includes_str :: "string \<Rightarrow> string \<Rightarrow> bool" where
  "includes_str [] t = (t = [])"
| "includes_str (c # cs) t = (prefix t (c # cs) \<or> includes_str cs t)"

text \<open>\<^verbatim>\<open>s.startsWith(t)\<close> and \<^verbatim>\<open>s.endsWith(t)\<close>.\<close>

definition startsWith :: "string \<Rightarrow> string \<Rightarrow> bool" where
  "startsWith s t = prefix t s"

definition endsWith :: "string \<Rightarrow> string \<Rightarrow> bool" where
  "endsWith s t = suffix t s"

text \<open>
  \<^verbatim>\<open>s.split('.')\<close>: the segments between the dots. The result is never empty: the
  empty string splits into one empty segment.
\<close>

fun split_dot :: "string \<Rightarrow> string list" where
  "split_dot [] = [[]]"
| "split_dot (c # cs) =
     (if c = CHR ''.'' then [] # split_dot cs
      else (case split_dot cs of
              [] \<Rightarrow> [[c]]
            | seg # segs \<Rightarrow> (c # seg) # segs))"

text \<open>\<^verbatim>\<open>parts.join(sep)\<close>.\<close>

fun join :: "string \<Rightarrow> string list \<Rightarrow> string" where
  "join sep [] = []"
| "join sep [x] = x"
| "join sep (x # y # ys) = x @ sep @ join sep (y # ys)"

text \<open>
  \<^verbatim>\<open>arr.filter((p, i, arr) => f(p, i, arr))\<close>: the callback sees the element, its
  index and the array being filtered.
\<close>

definition filter_indexed :: "('a \<Rightarrow> nat \<Rightarrow> 'a list \<Rightarrow> bool) \<Rightarrow> 'a list \<Rightarrow> 'a list" where
  "filter_indexed f arr = map fst (filter (\<lambda>(p, i). f p i arr) (zip arr [0..<length arr]))"

text \<open>
  \<^verbatim>\<open>s.toLowerCase()\<close> on code units below 256: the ASCII capitals and the Latin-1
  capitals (192 to 222, without the multiplication sign 215) move up by 32.
\<close>

definition lower_char :: "char \<Rightarrow> char" where
  "lower_char c =
     (let n = (of_char c :: nat)
      in if (65 \<le> n \<and> n \<le> 90) \<or> (192 \<le> n \<and> n \<le> 222 \<and> n \<noteq> 215)
         then char_of (n + 32) else c)"

definition toLowerCase :: "string \<Rightarrow> string" where
  "toLowerCase s = map lower_char s"

section \<open>Version normalization\<close>

text \<open>
  \<^verbatim>\<open>const normalizeVersion = v =>
      v.split('.').filter((p, i, arr) => i < arr.length - 1 || p !== '0').join('.');\<close>
  The comparison \<^verbatim>\<open>i < arr.length - 1\<close> is on JavaScript numbers, so it is made on
  integers here.
\<close>

definition normalizeVersion :: "string \<Rightarrow> string" where
  "normalizeVersion v =
     join ''.'' (filter_indexed (\<lambda>p i arr. int i < int (length arr) - 1 \<or> p \<noteq> ''0'')
                                (split_dot v))"

text \<open>
  The earlier revision of the same function, kept in the repository's history:
  \<^verbatim>\<open>const parts = v.split('.');
  while (parts.length > 1 && parts[parts.length - 1] === '0') { parts.pop(); }
  return parts.join('.');\<close>
\<close>

function pop_zeros :: "string list \<Rightarrow> string list" where
  "pop_zeros parts =
     (if length parts > 1 \<and> last parts = ''0'' then pop_zeros (butlast parts) else parts)"
  by pat_completeness auto
termination
  by (relation "measure length") auto

definition normalizeVersion_loop :: "string \<Rightarrow> string" where
  "normalizeVersion_loop v = join ''.'' (pop_zeros (split_dot v))"

section \<open>Packages and the resolver's diagnostics\<close>

text \<open>A package reference \<^verbatim>\<open>{ id, version }\<close>.\<close>

record package =
  pkg_id :: string
  pkg_version :: string

text \<open>
  The regular expression of \<^verbatim>\<open>extractIncompatiblePackages\<close>,
  \<^verbatim>\<open>/Package\s+([^\s]+)\s+([0-9.]+)\s+is\s+not\s+compatible/gi\<close>,
  is a sequence of atoms: a character (compared without case), a greedy \<open>+\<close> over a
  character class, and such a \<open>+\<close> inside a capturing group.
\<close>

datatype char_class = Space | NotSpace | DigitOrDot

datatype atom = Ch char | Plus char_class | Group char_class

text \<open>\<^verbatim>\<open>\s\<close> on code units below 256: tab, line feed, vertical tab, form feed,
  carriage return, space and the no-break space.\<close>

definition is_space :: "char \<Rightarrow> bool" where
  "is_space c = ((of_char c :: nat) \<in> {9, 10, 11, 12, 13, 32, 160})"

definition is_digit_or_dot :: "char \<Rightarrow> bool" where
  "is_digit_or_dot c = ((48 \<le> (of_char c :: nat) \<and> (of_char c :: nat) \<le> 57) \<or> c = CHR ''.'')"

fun in_class :: "char_class \<Rightarrow> char \<Rightarrow> bool" where
  "in_class Space c = is_space c"
| "in_class NotSpace c = (\<not> is_space c)"
| "in_class DigitOrDot c = is_digit_or_dot c"

text \<open>
  The \<^verbatim>\<open>i\<close> flag compares canonicalized code units: the upper-case form, where
  that is one code unit. The pattern's characters are ASCII letters, and no code unit
  from 128 on canonicalizes to an ASCII one, so only the images below 256 are written
  out.
\<close>

definition canonicalize :: "char \<Rightarrow> char" where
  "canonicalize c =
     (let n = (of_char c :: nat)
      in if (97 \<le> n \<and> n \<le> 122) \<or> (224 \<le> n \<and> n \<le> 254 \<and> n \<noteq> 247)
         then char_of (n - 32) else c)"

text \<open>The first result that is not \<open>None\<close>, trying the candidates in order.\<close>

fun first_match :: "('a \<Rightarrow> 'b option) \<Rightarrow> 'a list \<Rightarrow> 'b option" where
  "first_match f [] = None"
| "first_match f (n # ns) = (case f n of Some r \<Rightarrow> Some r | None \<Rightarrow> first_match f ns)"

text \<open>
  A greedy \<open>+\<close> first takes every character of its class that stands in front, then
  gives them back one at a time, keeping at least one.
\<close>

definition greedy_counts :: "char_class \<Rightarrow> string \<Rightarrow> nat list" where
  "greedy_counts k s = rev [1..<Suc (length (takeWhile (in_class k) s))]"

text \<open>
  Matching a pattern at the front of a string, with backtracking: the captured groups
  and the text after the match.
\<close>

primrec rx_match :: "atom list \<Rightarrow> string \<Rightarrow> (string list \<times> string) option" where
  "rx_match [] s = Some ([], s)"
| "rx_match (a # p) s =
     (case a of
        Ch c \<Rightarrow>
          (case s of
             [] \<Rightarrow> None
           | x # xs \<Rightarrow> if canonicalize x = canonicalize c then rx_match p xs else None)
      | Plus k \<Rightarrow> first_match (\<lambda>n. rx_match p (drop n s)) (greedy_counts k s)
      | Group k \<Rightarrow>
          first_match
            (\<lambda>n. case rx_match p (drop n s) of
                    None \<Rightarrow> None
                  | Some (groups, rest) \<Rightarrow> Some (take n s # groups, rest))
            (greedy_counts k s))"

definition nu1202Regex :: "atom list" where
  "nu1202Regex =
     map Ch ''Package'' @ [Plus Space, Group NotSpace, Plus Space, Group DigitOrDot, Plus Space]
     @ map Ch ''is'' @ [Plus Space] @ map Ch ''not'' @ [Plus Space] @ map Ch ''compatible''"

lemma first_match_Some:
  "first_match f ns = Some r \<Longrightarrow> \<exists>n \<in> set ns. f n = Some r"
  by (induction ns) (auto split: option.splits)

lemma greedy_counts_pos: "n \<in> set (greedy_counts k s) \<Longrightarrow> 0 < n"
  by (auto simp: greedy_counts_def)

lemma rx_match_length:
  "rx_match p s = Some (groups, rest) \<Longrightarrow> length rest \<le> length s"
proof (induction p arbitrary: s groups rest)
  case Nil
  then show ?case by simp
next
  case (Cons a p)
  show ?case
  proof (cases a)
    case (Ch c)
    with Cons.prems obtain x xs where "s = x # xs" "rx_match p xs = Some (groups, rest)"
      by (auto split: list.splits if_splits)
    with Cons.IH show ?thesis by fastforce
  next
    case (Plus k)
    with Cons.prems obtain n where "rx_match p (drop n s) = Some (groups, rest)"
      by (auto dest!: first_match_Some)
    with Cons.IH have "length rest \<le> length (drop n s)" by blast
    then show ?thesis by simp
  next
    case (Group k)
    with Cons.prems obtain n g where "rx_match p (drop n s) = Some (g, rest)"
      by (auto dest!: first_match_Some split: option.splits)
    with Cons.IH have "length rest \<le> length (drop n s)" by blast
    then show ?thesis by simp
  qed
qed

lemma rx_match_Ch_shorter:
  "rx_match (Ch c # p) s = Some (groups, rest) \<Longrightarrow> length rest < length s"
  by (cases s) (auto split: if_splits dest: rx_match_length)

text \<open>A match of the pattern captures its two groups, \<^verbatim>\<open>match[1]\<close> and
  \<^verbatim>\<open>match[2]\<close>.\<close>

lemma rx_match_groups:
  "rx_match p s = Some (groups, rest)
   \<Longrightarrow> length groups = length (filter (\<lambda>a. case a of Group k \<Rightarrow> True | _ \<Rightarrow> False) p)"
proof (induction p arbitrary: s groups rest)
  case Nil
  then show ?case by simp
next
  case (Cons a p)
  show ?case
  proof (cases a)
    case (Ch c)
    with Cons.prems obtain xs where "rx_match p xs = Some (groups, rest)"
      by (auto split: list.splits if_splits)
    with Cons.IH Ch show ?thesis by fastforce
  next
    case (Plus k)
    with Cons.prems obtain n where "rx_match p (drop n s) = Some (groups, rest)"
      by (auto dest!: first_match_Some)
    with Cons.IH Plus show ?thesis by fastforce
  next
    case (Group k)
    with Cons.prems obtain n g where "rx_match p (drop n s) = Some (g, rest)"
      and "groups = take n s # g"
      by (auto dest!: first_match_Some split: option.splits)
    with Cons.IH Group show ?thesis by fastforce
  qed
qed

lemma nu1202Regex_groups:
  "rx_match nu1202Regex s = Some (groups, rest) \<Longrightarrow> \<exists>i v. groups = [i, v]"
proof -
  assume "rx_match nu1202Regex s = Some (groups, rest)"
  then have "length groups
      = length (filter (\<lambda>a. case a of Group k \<Rightarrow> True | _ \<Rightarrow> False) nu1202Regex)"
    by (rule rx_match_groups)
  also have "\<dots> = 2"
    by (simp add: nu1202Regex_def)
  finally have "length groups = 2" .
  then show ?thesis
    by (cases groups; cases "tl groups") auto
qed

text \<open>
  \<^verbatim>\<open>while ((match = nu1202Regex.exec(errorOutput)) !== null)
    incompatiblePackages.push({ id: match[1], version: match[2] });\<close>
  With the \<^verbatim>\<open>g\<close> flag each \<^verbatim>\<open>exec\<close> searches from the end of the match
  before: it tries the pattern at every position from there on, leftmost first.
\<close>

function exec_all :: "string \<Rightarrow> package list" where
  "exec_all [] = []"
| "exec_all (c # cs) =
     (case rx_match nu1202Regex (c # cs) of
        Some (groups, rest) \<Rightarrow>
          \<lparr>pkg_id = groups ! 0, pkg_version = groups ! 1\<rparr> # exec_all rest
      | None \<Rightarrow> exec_all cs)"
  by pat_completeness auto
termination
proof (relation "measure length")
  fix c cs groups rest x
  assume "rx_match nu1202Regex (c # cs) = Some x" and "(groups, rest) = x"
  then have "rx_match (Ch CHR ''P'' # tl nu1202Regex) (c # cs) = Some (groups, rest)"
    by (simp add: nu1202Regex_def)
  then have "length rest < length (c # cs)"
    by (rule rx_match_Ch_shorter)
  then show "(rest, c # cs) \<in> measure length" by simp
qed auto

definition extractIncompatiblePackages :: "string \<Rightarrow> package list" where
  "extractIncompatiblePackages errorOutput = exec_all errorOutput"

section \<open>Reading the manifest\<close>

text \<open>
  \<^verbatim>\<open>fs.readFile\<close> and the XML parser are outside the repository. What
  \<^verbatim>\<open>parsePackagesConfig\<close> gets from them is modelled as data: the read or the parse
  throws (with a message), or the parser returns an object whose
  \<^verbatim>\<open>result.packages.package\<close> is missing, one element or an array of elements,
  each with its attributes \<^verbatim>\<open>@_id\<close>, \<^verbatim>\<open>@_version\<close> and
  \<^verbatim>\<open>@_targetFramework\<close> present or not.
\<close>

record xml_package =
  attr_id :: "string option"
  attr_version :: "string option"
  attr_targetFramework :: "string option"

datatype package_node = Single xml_package | Array "xml_package list"

datatype manifest_read =
    ReadFailed string
  | ParseFailed string
  | Parsed "package_node option"

text \<open>A JavaScript value that is \<^verbatim>\<open>undefined\<close>, \<^verbatim>\<open>null\<close> or the empty
  string is falsy; another string is truthy.\<close>

definition truthy :: "string option \<Rightarrow> bool" where
  "truthy v = (case v of None \<Rightarrow> False | Some s \<Rightarrow> s \<noteq> [])"

text \<open>
  \<^verbatim>\<open>if (targetFramework.startsWith('netframework')) {
    const version = targetFramework.replace('netframework', '').replace(/\./g, '');
    targetFramework = `net${version}`; }\<close>
  The first occurrence of \<^verbatim>\<open>netframework\<close>, the one \<^verbatim>\<open>replace\<close> removes, is
  the prefix just tested.
\<close>

definition shortTargetFramework :: "string \<Rightarrow> string" where
  "shortTargetFramework targetFramework =
     (if startsWith targetFramework ''netframework''
      then ''net'' @ filter (\<lambda>c. c \<noteq> CHR ''.'') (drop (length ''netframework'') targetFramework)
      else targetFramework)"

text \<open>
  The body of \<^verbatim>\<open>for (const pkg of packageList)\<close>, on the two variables it updates:
  \<^verbatim>\<open>packages\<close> and \<^verbatim>\<open>targetFramework\<close>.
\<close>

fun collect_packages ::
  "xml_package list \<Rightarrow> package list \<Rightarrow> string option \<Rightarrow> package list \<times> string option" where
  "collect_packages [] packages targetFramework = (packages, targetFramework)"
| "collect_packages (pkg # packageList) packages targetFramework =
     (if truthy (attr_id pkg) \<and> truthy (attr_version pkg)
      then collect_packages packageList
             (packages @ [\<lparr>pkg_id = the (attr_id pkg), pkg_version = the (attr_version pkg)\<rparr>])
             (if \<not> truthy targetFramework \<and> truthy (attr_targetFramework pkg)
              then Some (shortTargetFramework (the (attr_targetFramework pkg)))
              else targetFramework)
      else collect_packages packageList packages targetFramework)"

text \<open>
  \<^verbatim>\<open>parsePackagesConfig\<close>: \<open>Inl\<close> is the message of the error thrown, \<open>Inr\<close> the
  returned \<^verbatim>\<open>{ packages, targetFramework }\<close>.
\<close>

definition parsePackagesConfig :: "manifest_read \<Rightarrow> string + (package list \<times> string option)" where
  "parsePackagesConfig m =
     (case m of
        ReadFailed msg \<Rightarrow> Inl msg
      | ParseFailed msg \<Rightarrow> Inl (''Failed to parse packages.config: '' @ msg)
      | Parsed None \<Rightarrow> Inr ([], None)
      | Parsed (Some (Array packageList)) \<Rightarrow> Inr (collect_packages packageList [] None)
      | Parsed (Some (Single pkg)) \<Rightarrow> Inr (collect_packages [pkg] [] None))"

section \<open>The generated project descriptor\<close>

definition newline :: string where
  "newline = [char_of (10 :: nat)]"

definition dquote :: string where
  "dquote = [char_of (34 :: nat)]"

definition generatePackageReferences :: "package list \<Rightarrow> string" where
  "generatePackageReferences packages =
     join newline
       (map (\<lambda>pkg. ''    <PackageReference Include='' @ dquote @ pkg_id pkg @ dquote
                   @ '' Version='' @ dquote @ pkg_version pkg @ dquote @ '' />'')
            packages)"

definition generateCsproj :: "package list \<Rightarrow> string \<Rightarrow> bool \<Rightarrow> string" where
  "generateCsproj packages tfm hasExplicitTfm =
     (let packageRefs = generatePackageReferences packages;
          properties0 = ''    <TargetFramework>'' @ tfm @ ''</TargetFramework>'' @ newline
            @ ''    <RestorePackagesWithLockFile>true</RestorePackagesWithLockFile>'';
          properties =
            (if hasExplicitTfm \<and> startsWith tfm ''net4''
             then properties0 @ newline
               @ ''    <AssetTargetFallback>$(AssetTargetFallback);net40;net45;net46;net461;net462;net20</AssetTargetFallback>''
             else properties0)
      in ''<Project Sdk='' @ dquote @ ''Microsoft.NET.Sdk'' @ dquote @ ''>'' @ newline
         @ ''  <PropertyGroup>'' @ newline
         @ properties @ newline
         @ ''  </PropertyGroup>'' @ newline
         @ ''  <ItemGroup>'' @ newline
         @ packageRefs @ newline
         @ ''  </ItemGroup>'' @ newline
         @ ''</Project>'')"

section \<open>The narrowing loop\<close>

text \<open>
  An error caught by the loop's \<^verbatim>\<open>catch (err)\<close>: \<^verbatim>\<open>err.stdout\<close> and
  \<^verbatim>\<open>err.stderr\<close> (buffers, absent on an error that is not the child process's)
  and \<^verbatim>\<open>err.message\<close>.
\<close>

record exec_error =
  err_stdout :: "string option"
  err_stderr :: "string option"
  err_message :: string

text \<open>
  One pass through the \<^verbatim>\<open>try\<close> block calls \<^verbatim>\<open>fs.writeFile\<close> and then
  \<^verbatim>\<open>execFileSync('dotnet', ['restore', csprojPath, ...])\<close>, the resolver. Both are
  outside the repository: the write throws, or the resolver runs and succeeds or throws.
\<close>

datatype attempt = WriteFileFailed string | RestoreSucceeded | RestoreFailed exec_error

text \<open>What is written to the console, one constructor for each message of
  \<^verbatim>\<open>processPackagesConfig\<close>.\<close>

datatype console_line =
    Processing string
  | ErrorMessage string
  | UsingExistingCsproj string
  | LockFileAlreadyExists string
  | Generated string
  | LockFileNotFound
  | RestoreFailedHeader
  | Raw string
  | NoPackagesFound
  | UsingTargetFramework string
  | SkippedWarning nat string

text \<open>
  \<open>Processing p\<close> is \<^verbatim>\<open>console.log(`Processing: ${p}`)\<close>;
  \<open>ErrorMessage m\<close> is \<^verbatim>\<open>console.error(`  Error: ${m}`)\<close>;
  \<open>RestoreFailedHeader\<close> is \<^verbatim>\<open>console.error('  Error: dotnet restore failed:')\<close>;
  \<open>Raw s\<close> is \<^verbatim>\<open>console.error(s)\<close> of the resolver's output;
  \<open>NoPackagesFound\<close> is \<^verbatim>\<open>console.log('  Warning: No packages found, skipping')\<close>;
  \<open>SkippedWarning n l\<close> is
  \<^verbatim>\<open>console.log(`  Warning: Skipped ${n} incompatible package(s): ${l}`)\<close>;
  \<open>LockFileNotFound\<close> is \<^verbatim>\<open>console.log(`  Warning: Lock file not found after restore`)\<close>;
  the others are the \<^verbatim>\<open>console.log\<close> lines of the same names.
\<close>

text \<open>
  The variables of the loop, with the console output so far and the number of times the
  resolver has run.
\<close>

record loop_state =
  compatiblePackages :: "package list"
  skippedPackages :: "package list"
  retryCount :: nat
  restoreSuccess :: bool
  lastError :: "exec_error option"
  console :: "console_line list"
  restores :: nat

definition maxRetries :: nat where
  "maxRetries = 20"

text \<open>\<^verbatim>\<open>err.stdout?.toString() || ''\<close>.\<close>

definition text_or_empty :: "string option \<Rightarrow> string" where
  "text_or_empty b = (case b of None \<Rightarrow> [] | Some s \<Rightarrow> s)"

text \<open>
  \<^verbatim>\<open>incompatible.some(incomp =>
    incomp.id.toLowerCase() === pkg.id.toLowerCase() &&
    normalizeVersion(incomp.version) === normalizeVersion(pkg.version))\<close>
\<close>

definition reported :: "package list \<Rightarrow> package \<Rightarrow> bool" where
  "reported incompatible pkg =
     list_ex (\<lambda>incomp. toLowerCase (pkg_id incomp) = toLowerCase (pkg_id pkg)
                       \<and> normalizeVersion (pkg_version incomp) = normalizeVersion (pkg_version pkg))
             incompatible"

text \<open>
  The \<^verbatim>\<open>catch (err)\<close> block of the loop. The result says whether the loop goes on
  (\<^verbatim>\<open>continue\<close>, \<open>True\<close>) or ends (\<^verbatim>\<open>break\<close>, \<open>False\<close>).
\<close>

definition catch_block :: "exec_error \<Rightarrow> loop_state \<Rightarrow> bool \<times> loop_state" where
  "catch_block err st =
     (let st1 = st\<lparr>lastError := Some err\<rparr>;
          stdout = text_or_empty (err_stdout err);
          stderr = text_or_empty (err_stderr err);
          errorOutput = stdout @ stderr;
          st2 = (if errorOutput = [] \<and> err_message err \<noteq> []
                 then st1\<lparr>console := console st1 @ [ErrorMessage (err_message err)]\<rparr>
                 else st1)
      in if includes_str errorOutput ''NU1202''
         then (let incompatible = extractIncompatiblePackages errorOutput
               in if length incompatible > 0
                  then (let beforeCount = length (compatiblePackages st2);
                            st3 = st2\<lparr>compatiblePackages :=
                                        filter (\<lambda>pkg. \<not> reported incompatible pkg)
                                               (compatiblePackages st2)\<rparr>
                        in if length (compatiblePackages st3) < beforeCount
                           then (True, st3\<lparr>skippedPackages := skippedPackages st3 @ incompatible,
                                           retryCount := retryCount st3 + 1\<rparr>)
                           else (False, st3))
                  else (False, st2))
         else (False, st2))"

text \<open>\<^verbatim>\<open>skippedPackages.map(p => `${p.id}@${p.version}`).join(', ')\<close>.\<close>

definition skippedList :: "package list \<Rightarrow> string" where
  "skippedList ps = join '', '' (map (\<lambda>p. pkg_id p @ ''@'' @ pkg_version p) ps)"

text \<open>
  One iteration of the loop. The resolver's answer may depend on the descriptor written
  and on how many attempts came before; \<^verbatim>\<open>retryCount\<close> is that number, since the
  loop goes round again only after \<^verbatim>\<open>retryCount++\<close>. The
  \<^verbatim>\<open>throw new Error(`Packages were skipped: ...`)\<close> stands inside the
  \<^verbatim>\<open>try\<close>, so the loop's own \<^verbatim>\<open>catch\<close> receives it, after
  \<^verbatim>\<open>restoreSuccess = true\<close>.
\<close>

definition loop_body ::
  "(nat \<Rightarrow> string \<Rightarrow> attempt) \<Rightarrow> string \<Rightarrow> bool \<Rightarrow> bool \<Rightarrow> loop_state \<Rightarrow> bool \<times> loop_state" where
  "loop_body resolver tfm hasExplicitTfm failOnSkipped st =
     (case resolver (retryCount st) (generateCsproj (compatiblePackages st) tfm hasExplicitTfm) of
        WriteFileFailed msg \<Rightarrow>
          catch_block \<lparr>err_stdout = None, err_stderr = None, err_message = msg\<rparr> st
      | RestoreFailed err \<Rightarrow> catch_block err (st\<lparr>restores := restores st + 1\<rparr>)
      | RestoreSucceeded \<Rightarrow>
          (let st1 = st\<lparr>restoreSuccess := True, restores := restores st + 1\<rparr>
           in if length (skippedPackages st1) > 0
              then (let st2 = st1\<lparr>console := console st1 @
                            [SkippedWarning (length (skippedPackages st1))
                                            (skippedList (skippedPackages st1))]\<rparr>
                    in if failOnSkipped
                       then catch_block
                              \<lparr>err_stdout = None, err_stderr = None,
                               err_message = ''Packages were skipped: ''
                                             @ skippedList (skippedPackages st1)\<rparr> st2
                       else (False, st2))
              else (False, st1)))"

lemma catch_block_continue:
  assumes "catch_block err st = (True, st')"
  shows "retryCount st' = retryCount st + 1"
    and "length (compatiblePackages st') < length (compatiblePackages st)"
  using assms
  by (auto simp: catch_block_def Let_def split: if_splits)

lemma loop_body_continue:
  assumes "loop_body resolver tfm hasExplicitTfm failOnSkipped st = (True, st')"
  shows "retryCount st' = retryCount st + 1"
    and "length (compatiblePackages st') < length (compatiblePackages st)"
  using assms
  by (auto simp: loop_body_def Let_def split: attempt.splits if_splits
           dest: catch_block_continue)

text \<open>
  \<^verbatim>\<open>while (retryCount < maxRetries && compatiblePackages.length > 0) { ... }\<close>
\<close>

function while_loop ::
  "(nat \<Rightarrow> string \<Rightarrow> attempt) \<Rightarrow> string \<Rightarrow> bool \<Rightarrow> bool \<Rightarrow> loop_state \<Rightarrow> loop_state" where
  "while_loop resolver tfm hasExplicitTfm failOnSkipped st =
     (if retryCount st < maxRetries \<and> length (compatiblePackages st) > 0
      then (case loop_body resolver tfm hasExplicitTfm failOnSkipped st of
              (True, st') \<Rightarrow> while_loop resolver tfm hasExplicitTfm failOnSkipped st'
            | (False, st') \<Rightarrow> st')
      else st)"
  by pat_completeness auto
termination
proof (relation "measure (\<lambda>(resolver, tfm, hasExplicitTfm, failOnSkipped, st). maxRetries - retryCount st)")
  fix resolver :: "nat \<Rightarrow> string \<Rightarrow> attempt" and tfm hasExplicitTfm failOnSkipped st x y
  assume guard: "retryCount st < maxRetries \<and> 0 < length (compatiblePackages st)"
    and body: "(x, y) = loop_body resolver tfm hasExplicitTfm failOnSkipped st" "x = True"
  from body have "loop_body resolver tfm hasExplicitTfm failOnSkipped st = (True, y)"
    by simp
  then have "retryCount y = retryCount st + 1"
    by (rule loop_body_continue)
  with guard have "maxRetries - retryCount y < maxRetries - retryCount st"
    by linarith
  then show "((resolver, tfm, hasExplicitTfm, failOnSkipped, y),
         (resolver, tfm, hasExplicitTfm, failOnSkipped, st))
        \<in> measure (\<lambda>(resolver, tfm, hasExplicitTfm, failOnSkipped, st). maxRetries - retryCount st)"
    by simp
qed simp

declare while_loop.simps [simp del]

text \<open>The loop's condition, and \<^verbatim>\<open>errorOutput\<close> as the \<^verbatim>\<open>catch\<close> block
  computes it.\<close>

definition loop_guard :: "loop_state \<Rightarrow> bool" where
  "loop_guard st = (retryCount st < maxRetries \<and> length (compatiblePackages st) > 0)"

definition error_output :: "exec_error \<Rightarrow> string" where
  "error_output err = text_or_empty (err_stdout err) @ text_or_empty (err_stderr err)"

text \<open>
  The states in which the loop's condition is tested, from the state \<open>st0\<close> in which
  the loop starts: \<open>st0\<close> itself, and the state after every iteration that went on.
\<close>

inductive loop_head ::
  "(nat \<Rightarrow> string \<Rightarrow> attempt) \<Rightarrow> string \<Rightarrow> bool \<Rightarrow> bool \<Rightarrow> loop_state \<Rightarrow> loop_state \<Rightarrow> bool"
  for resolver tfm hasExplicitTfm failOnSkipped st0 where
    start: "loop_head resolver tfm hasExplicitTfm failOnSkipped st0 st0"
  | again: "loop_head resolver tfm hasExplicitTfm failOnSkipped st0 st
            \<Longrightarrow> retryCount st < maxRetries \<and> length (compatiblePackages st) > 0
            \<Longrightarrow> loop_body resolver tfm hasExplicitTfm failOnSkipped st = (True, st')
            \<Longrightarrow> loop_head resolver tfm hasExplicitTfm failOnSkipped st0 st'"

section \<open>Processing one manifest\<close>

text \<open>
  The functions of Node's \<^verbatim>\<open>path\<close> module that the code calls, as its POSIX
  implementation computes them. \<^verbatim>\<open>path.join\<close> joins its non-empty arguments with
  a separator and normalizes the result: empty and \<open>.\<close> segments go, a \<open>..\<close> segment
  takes the segment before it away (at the front of a relative path it stays), and a
  trailing separator is kept.
\<close>

fun split_slash :: "string \<Rightarrow> string list" where
  "split_slash [] = [[]]"
| "split_slash (c # cs) =
     (if c = CHR ''/'' then [] # split_slash cs
      else (case split_slash cs of
              [] \<Rightarrow> [[c]]
            | seg # segs \<Rightarrow> (c # seg) # segs))"

fun normalize_segments :: "bool \<Rightarrow> string list \<Rightarrow> string list \<Rightarrow> string list" where
  "normalize_segments allowAboveRoot [] res = res"
| "normalize_segments allowAboveRoot (seg # segs) res =
     (if seg = [] \<or> seg = ''.'' then normalize_segments allowAboveRoot segs res
      else if seg = ''..''
      then (if res \<noteq> [] \<and> last res \<noteq> ''..''
            then normalize_segments allowAboveRoot segs (butlast res)
            else if allowAboveRoot
            then normalize_segments allowAboveRoot segs (res @ [''..''])
            else normalize_segments allowAboveRoot segs res)
      else normalize_segments allowAboveRoot segs (res @ [seg]))"

definition path_normalize :: "string \<Rightarrow> string" where
  "path_normalize p =
     (if p = [] then ''.''
      else (let isAbsolute = (hd p = CHR ''/'');
                trailingSeparator = (last p = CHR ''/'');
                q = join ''/'' (normalize_segments (\<not> isAbsolute) (split_slash p) [])
            in if q = []
               then (if isAbsolute then ''/'' else if trailingSeparator then ''./'' else ''.'')
               else (if isAbsolute then ''/'' else [])
                    @ q @ (if trailingSeparator then ''/'' else [])))"

definition path_join :: "string \<Rightarrow> string \<Rightarrow> string" where
  "path_join dir name =
     (let joined = join ''/'' (filter (\<lambda>arg. arg \<noteq> []) [dir, name])
      in if joined = [] then ''.'' else path_normalize joined)"

text \<open>
  \<^verbatim>\<open>path.basename(p)\<close>: trailing separators are passed over, then the characters
  back to the separator before them are taken.
\<close>

definition basename :: "string \<Rightarrow> string" where
  "basename p =
     rev (takeWhile (\<lambda>c. c \<noteq> CHR ''/'') (dropWhile (\<lambda>c. c = CHR ''/'') (rev p)))"

text \<open>
  \<^verbatim>\<open>path.dirname(p)\<close>: from the end and without the first character, trailing
  separators and then the last segment are passed over; the path up to the separator
  found there is returned, and \<open>/\<close> or \<open>.\<close> when there is none.
\<close>

definition dirname :: "string \<Rightarrow> string" where
  "dirname p =
     (case p of
        [] \<Rightarrow> ''.''
      | c # cs \<Rightarrow>
          (case dropWhile (\<lambda>x. x \<noteq> CHR ''/'') (dropWhile (\<lambda>x. x = CHR ''/'') (rev cs)) of
             [] \<Rightarrow> if c = CHR ''/'' then ''/'' else ''.''
           | sep # front \<Rightarrow>
               if c = CHR ''/'' \<and> front = [] then ''//'' else c # rev front))"

text \<open>A directory entry, as \<^verbatim>\<open>fs.readdir(dir, { withFileTypes: true })\<close> lists it.\<close>

record dirent =
  entry_name :: string
  entry_isFile :: bool

text \<open>
  Everything outside the repository that processing one manifest touches: the directory
  listing (or the message of the error \<^verbatim>\<open>readdir\<close> throws), the resolver run on
  an existing descriptor (\<open>None\<close> when it succeeds), whether each
  \<^verbatim>\<open>fs.copyFile\<close> of that path succeeds, the manifest as read and parsed, and
  for the generated descriptor: \<^verbatim>\<open>fs.mkdtemp\<close> (\<open>Some\<close> message when it throws),
  the resolver attempts, the final \<^verbatim>\<open>fs.copyFile\<close> and the \<^verbatim>\<open>fs.rm\<close> of the
  \<^verbatim>\<open>finally\<close> block.
\<close>

record world =
  packagesConfigPath :: string
  readdir :: "string + dirent list"
  restore_existing :: "exec_error option"
  copy_root_lock :: bool
  copy_obj_lock :: bool
  manifest :: manifest_read
  mkdtemp_error :: "string option"
  resolver :: "nat \<Rightarrow> string \<Rightarrow> attempt"
  copy_lock_error :: "string option"
  rm_error :: "string option"

text \<open>
  \<^verbatim>\<open>findCsprojFile\<close>: \<open>Inl\<close> is the message of the error it throws, \<open>Inr\<close>
  what it returns (\<open>None\<close> for \<^verbatim>\<open>null\<close>). Its \<^verbatim>\<open>catch\<close> receives both the
  error of \<^verbatim>\<open>readdir\<close> and its own \<^verbatim>\<open>Multiple .csproj files\<close> error.
\<close>

definition findCsprojFile :: "string \<Rightarrow> string + dirent list \<Rightarrow> string + string option" where
  "findCsprojFile dir listing =
     (let thrown =
            (case listing of
               Inl msg \<Rightarrow> Inl msg
             | Inr entries \<Rightarrow>
                 (let csprojFiles =
                        map (\<lambda>e. path_join dir (entry_name e))
                            (filter (\<lambda>e. entry_isFile e \<and> endsWith (entry_name e) ''.csproj'')
                                    entries)
                  in if length csprojFiles = 0 then Inr None
                     else if length csprojFiles > 1
                     then Inl (''Multiple .csproj files found in '' @ dir @ '': ''
                               @ join '', '' (map basename csprojFiles))
                     else Inr (Some (hd csprojFiles))))
      in case thrown of
           Inl msg \<Rightarrow> if includes_str msg ''Multiple .csproj files'' then Inl msg else Inr None
         | Inr r \<Rightarrow> Inr r)"

text \<open>The value \<^verbatim>\<open>{ success, skippedPackages }\<close> that \<^verbatim>\<open>processPackagesConfig\<close>
  returns.\<close>

record outcome =
  success :: bool
  result_skippedPackages :: "package list"

text \<open>One call of \<^verbatim>\<open>processPackagesConfig\<close>: the value returned, the console
  output and the number of times the resolver ran.\<close>

record run =
  returned :: outcome
  printed :: "console_line list"
  resolver_runs :: nat

text \<open>The outer \<^verbatim>\<open>catch (err)\<close>: both of its branches print the message and
  return a failure with no skipped packages.\<close>

definition outer_catch :: "string \<Rightarrow> console_line list \<Rightarrow> nat \<Rightarrow> run" where
  "outer_catch msg out n =
     \<lparr>returned = \<lparr>success = False, result_skippedPackages = []\<rparr>,
      printed = out @ [ErrorMessage msg],
      resolver_runs = n\<rparr>"

text \<open>The branch \<^verbatim>\<open>if (existingCsproj) { ... }\<close>: every path through it returns.\<close>

definition use_existing :: "world \<Rightarrow> string \<Rightarrow> string \<Rightarrow> console_line list \<Rightarrow> run" where
  "use_existing w existingCsproj lockFilePath out =
     (let out1 = out @ [UsingExistingCsproj (basename existingCsproj)]
      in case restore_existing w of
           Some err \<Rightarrow>
             \<lparr>returned = \<lparr>success = False, result_skippedPackages = []\<rparr>,
              printed = out1 @ [RestoreFailedHeader]
                @ (if truthy (err_stdout err) then [Raw (the (err_stdout err))] else [])
                @ (if truthy (err_stderr err) then [Raw (the (err_stderr err))] else []),
              resolver_runs = 1\<rparr>
         | None \<Rightarrow>
             if copy_root_lock w
             then \<lparr>returned = \<lparr>success = True, result_skippedPackages = []\<rparr>,
                   printed = out1 @ [LockFileAlreadyExists lockFilePath],
                   resolver_runs = 1\<rparr>
             else if copy_obj_lock w
             then \<lparr>returned = \<lparr>success = True, result_skippedPackages = []\<rparr>,
                   printed = out1 @ [Generated lockFilePath],
                   resolver_runs = 1\<rparr>
             else \<lparr>returned = \<lparr>success = False, result_skippedPackages = []\<rparr>,
                   printed = out1 @ [LockFileNotFound],
                   resolver_runs = 1\<rparr>)"

text \<open>
  After the loop, inside the \<^verbatim>\<open>try\<close>: \<open>Inl\<close> is the message of an error thrown
  (\<^verbatim>\<open>lastError.stdout\<close> on \<^verbatim>\<open>null\<close>, or the \<^verbatim>\<open>copyFile\<close>), \<open>Inr\<close> the
  value returned. A buffer is truthy also when it is empty.
\<close>

definition after_loop ::
  "world \<Rightarrow> string \<Rightarrow> loop_state \<Rightarrow> (string + outcome) \<times> console_line list" where
  "after_loop w lockFilePath st =
     (if \<not> restoreSuccess st
      then (case lastError st of
              None \<Rightarrow>
                (Inl ''Cannot read properties of null (reading 'stdout')'',
                 console st @ [RestoreFailedHeader])
            | Some e \<Rightarrow>
                (Inr \<lparr>success = False, result_skippedPackages = skippedPackages st\<rparr>,
                 console st @ [RestoreFailedHeader]
                   @ (case err_stdout e of None \<Rightarrow> [] | Some t \<Rightarrow> [Raw t])
                   @ (case err_stderr e of None \<Rightarrow> [] | Some t \<Rightarrow> [Raw t])))
      else (case copy_lock_error w of
              Some msg \<Rightarrow> (Inl msg, console st)
            | None \<Rightarrow>
                (Inr \<lparr>success = True, result_skippedPackages = skippedPackages st\<rparr>,
                 console st @ [Generated lockFilePath])))"

text \<open>
  The \<^verbatim>\<open>finally\<close> block and the outer \<^verbatim>\<open>catch\<close>, after the loop has ended
  in state \<open>st\<close>: an error of the \<^verbatim>\<open>fs.rm\<close> replaces what the \<^verbatim>\<open>try\<close>
  block returned or threw, and every error thrown ends in the outer \<^verbatim>\<open>catch\<close>.
\<close>

definition finish :: "world \<Rightarrow> string \<Rightarrow> loop_state \<Rightarrow> run" where
  "finish w lockFilePath st =
     (let tried = after_loop w lockFilePath st
      in case rm_error w of
           Some msg \<Rightarrow> outer_catch msg (snd tried) (restores st)
         | None \<Rightarrow>
             (case fst tried of
                Inl msg \<Rightarrow> outer_catch msg (snd tried) (restores st)
              | Inr r \<Rightarrow> \<lparr>returned = r, printed = snd tried, resolver_runs = restores st\<rparr>))"

text \<open>
  The variables as the loop finds them:
  \<^verbatim>\<open>let compatiblePackages = [...packages]; let skippedPackages = [];
  let retryCount = 0; let restoreSuccess = false; let lastError = null;\<close>
\<close>

definition initial_state :: "package list \<Rightarrow> console_line list \<Rightarrow> loop_state" where
  "initial_state packages out =
     \<lparr>compatiblePackages = packages, skippedPackages = [], retryCount = 0,
      restoreSuccess = False, lastError = None, console = out, restores = 0\<rparr>"

text \<open>The fall-back from \<^verbatim>\<open>parsePackagesConfig\<close> on.\<close>

definition generate_and_restore ::
  "world \<Rightarrow> string \<Rightarrow> bool \<Rightarrow> string \<Rightarrow> console_line list \<Rightarrow> run" where
  "generate_and_restore w defaultTfm failOnSkipped lockFilePath out =
     (case parsePackagesConfig (manifest w) of
        Inl msg \<Rightarrow> outer_catch msg out 0
      | Inr (packages, targetFramework) \<Rightarrow>
          if length packages = 0
          then \<lparr>returned = \<lparr>success = False, result_skippedPackages = []\<rparr>,
                printed = out @ [NoPackagesFound],
                resolver_runs = 0\<rparr>
          else
            (let tfm = (if truthy targetFramework then the targetFramework else defaultTfm);
                 out1 = (if truthy targetFramework \<and> the targetFramework \<noteq> defaultTfm
                         then out @ [UsingTargetFramework tfm] else out)
             in case mkdtemp_error w of
                  Some msg \<Rightarrow> outer_catch msg out1 0
                | None \<Rightarrow>
                    finish w lockFilePath
                      (while_loop (resolver w) tfm (targetFramework \<noteq> None) failOnSkipped
                         (initial_state packages out1))))"

definition processPackagesConfig :: "world \<Rightarrow> string \<Rightarrow> bool \<Rightarrow> run" where
  "processPackagesConfig w defaultTfm failOnSkipped =
     (let lockFilePath = path_join (dirname (packagesConfigPath w)) ''packages.lock.json'';
          out = [Processing (packagesConfigPath w)];
          dir = dirname (packagesConfigPath w)
      in case findCsprojFile dir (readdir w) of
           Inl msg \<Rightarrow>
             if includes_str msg ''Multiple .csproj files''
             then \<lparr>returned = \<lparr>success = False, result_skippedPackages = []\<rparr>,
                   printed = out @ [ErrorMessage msg],
                   resolver_runs = 0\<rparr>
             else outer_catch msg out 0
         | Inr (Some existingCsproj) \<Rightarrow> use_existing w existingCsproj lockFilePath out
         | Inr None \<Rightarrow> generate_and_restore w defaultTfm failOnSkipped lockFilePath out)"

section \<open>The command line and the run over all manifests\<close>





text \<open>The counters of \<^verbatim>\<open>main\<close>, and the runs made so far.\<close>

record tally =
  successCount :: nat
  failCount :: nat
  totalSkippedPackages :: "package list"
  runs :: "run list"

text \<open>\<^verbatim>\<open>for (const packagesConfig of packagesConfigFiles) { ... }\<close>\<close>

fun process_all :: "world list \<Rightarrow> string \<Rightarrow> bool \<Rightarrow> tally \<Rightarrow> tally" where
  "process_all [] tfm failOnSkipped t = t"
| "process_all (packagesConfig # files) tfm failOnSkipped t =
     (let r = processPackagesConfig packagesConfig tfm failOnSkipped;
          t1 = (if success (returned r)
                then t\<lparr>successCount := successCount t + 1\<rparr>
                else t\<lparr>failCount := failCount t + 1\<rparr>);
          t2 = (if length (result_skippedPackages (returned r)) > 0
                then t1\<lparr>totalSkippedPackages :=
                          totalSkippedPackages t1 @ result_skippedPackages (returned r)\<rparr>
                else t1)
      in process_all files tfm failOnSkipped (t2\<lparr>runs := runs t2 @ [r]\<rparr>))"


text \<open>
  \<^verbatim>\<open>main\<close>: the exit status of the process and the tally. A run that reaches the
  end of \<^verbatim>\<open>main\<close> exits with status 0.
\<close>

definition empty_tally :: tally where
  "empty_tally = \<lparr>successCount = 0, failCount = 0, totalSkippedPackages = [], runs = []\<rparr>"


text \<open>The invariant of the loop: the candidates are the original packages that no entry
  of the skip list reports.\<close>

definition narrowed :: "package list \<Rightarrow> loop_state \<Rightarrow> bool" where
  "narrowed original st =
     (compatiblePackages st = filter (\<lambda>p. \<not> reported (skippedPackages st) p) original)"

section \<open>A manifest with two packages, one of them incompatible\<close>

text \<open>
  The manifest lists \<open>A 1.0\<close> and \<open>B 2.0\<close>. The resolver's first run fails with
  error NU1202, naming \<open>B 2.0\<close> and a package \<open>Z 9.9\<close> that the manifest does not
  list (a dependency); its later runs succeed.
\<close>

definition pkgA :: package where
  "pkgA = \<lparr>pkg_id = ''A'', pkg_version = ''1.0''\<rparr>"

definition pkgB :: package where
  "pkgB = \<lparr>pkg_id = ''B'', pkg_version = ''2.0''\<rparr>"

definition pkgZ :: package where
  "pkgZ = \<lparr>pkg_id = ''Z'', pkg_version = ''9.9''\<rparr>"

definition nu1202_output :: string where
  "nu1202_output =
     ''error NU1202: Package B 2.0 is not compatible with net472. Package Z 9.9 is not compatible with net472.''"

definition rejecting_B :: "nat \<Rightarrow> string \<Rightarrow> attempt" where
  "rejecting_B n text =
     (if n = 0
      then RestoreFailed \<lparr>err_stdout = Some nu1202_output, err_stderr = Some [],
                          err_message = ''Command failed: dotnet restore''\<rparr>
      else RestoreSucceeded)"

definition manifest_AB :: manifest_read where
  "manifest_AB =
     Parsed (Some (Array
       [\<lparr>attr_id = Some ''A'', attr_version = Some ''1.0'', attr_targetFramework = None\<rparr>,
        \<lparr>attr_id = Some ''B'', attr_version = Some ''2.0'', attr_targetFramework = None\<rparr>]))"

definition example_world :: world where
  "example_world =
     \<lparr>packagesConfigPath = ''/repo/app/packages.config'',
      readdir = Inr [\<lparr>entry_name = ''packages.config'', entry_isFile = True\<rparr>],
      restore_existing = None, copy_root_lock = False, copy_obj_lock = True,
      manifest = manifest_AB, mkdtemp_error = None, resolver = rejecting_B,
      copy_lock_error = None, rm_error = None\<rparr>"

text \<open>A resolver whose every run fails with the given output, and two such outputs: one
  without the NU1202 signal, one whose NU1202 line names a package that is not a
  candidate.\<close>

definition failing_with :: "string \<Rightarrow> nat \<Rightarrow> string \<Rightarrow> attempt" where
  "failing_with diag n text =
     RestoreFailed \<lparr>err_stdout = Some diag, err_stderr = None,
                    err_message = ''Command failed: dotnet restore''\<rparr>"

definition not_found_output :: string where
  "not_found_output = ''error NU1101: Unable to find package A''"

definition foreign_output :: string where
  "foreign_output = ''error NU1202: Package Z 9.9 is not compatible with net472''"

text \<open>A resolver whose first run fails with the given output and whose later runs
  succeed, and an output that reports \<open>B 2.0\<close> twice, as the error and in the summary
  after it.\<close>

definition rejecting_with :: "string \<Rightarrow> nat \<Rightarrow> string \<Rightarrow> attempt" where
  "rejecting_with diag n text =
     (if n = 0
      then RestoreFailed \<lparr>err_stdout = Some diag, err_stderr = Some [],
                          err_message = ''Command failed: dotnet restore''\<rparr>
      else RestoreSucceeded)"

definition repeated_output :: string where
  "repeated_output =
     ''error NU1202: Package B 2.0 is not compatible with net472. 1 Error(s): error NU1202: Package B 2.0 is not compatible with net472.''"

text \<open>A manifest that lists the id \<open>A\<close> twice.\<close>

definition manifest_twice_A :: manifest_read where
  "manifest_twice_A =
     Parsed (Some (Array
       [\<lparr>attr_id = Some ''A'', attr_version = Some ''1.0'', attr_targetFramework = None\<rparr>,
        \<lparr>attr_id = Some ''A'', attr_version = Some ''2.0'', attr_targetFramework = None\<rparr>]))"

text \<open>The same directory with a manifest that lists no package, with two project
  descriptors beside the manifest, and with one.\<close>

definition empty_manifest_world :: world where
  "empty_manifest_world = example_world\<lparr>manifest := Parsed (Some (Array []))\<rparr>"

definition ambiguous_world :: world where
  "ambiguous_world =
     example_world\<lparr>readdir := Inr [\<lparr>entry_name = ''packages.config'', entry_isFile = True\<rparr>,
                                   \<lparr>entry_name = ''App.csproj'', entry_isFile = True\<rparr>,
                                   \<lparr>entry_name = ''Old.csproj'', entry_isFile = True\<rparr>]\<rparr>"

definition existing_world :: world where
  "existing_world =
     example_world\<lparr>readdir := Inr [\<lparr>entry_name = ''packages.config'', entry_isFile = True\<rparr>,
                                   \<lparr>entry_name = ''App.csproj'', entry_isFile = True\<rparr>]\<rparr>"


section \<open>Properties of version normalization\<close>

lemma filter_indexed_last:
  "filter_indexed (\<lambda>p i arr. int i < int (length arr) - 1 \<or> p \<noteq> z) (xs @ [x]) =
     (if x = z then xs else xs @ [x])"
proof -
  have "filter (\<lambda>(p, i). int i < int (length xs) \<or> p \<noteq> z) (zip xs [0..<length xs]) =
        zip xs [0..<length xs]"
    by (rule filter_True) (auto simp: set_zip)
  then show ?thesis
    by (simp add: filter_indexed_def)
qed

lemma split_dot_not_Nil: "split_dot s \<noteq> []"
  by (induction s) (auto split: list.splits)

text \<open>
  What the code computes: the last segment is dropped when it is \<open>0\<close>, and every other
  segment is kept, also a \<open>0\<close> that becomes the last one.
\<close>

lemma normalizeVersion_eq:
  "normalizeVersion v =
     join ''.'' (if last (split_dot v) = ''0'' then butlast (split_dot v) else split_dot v)"
proof -
  obtain xs x where sp: "split_dot v = xs @ [x]"
    using split_dot_not_Nil [of v] by (metis rev_exhaust)
  show ?thesis
    unfolding normalizeVersion_def sp filter_indexed_last by simp
qed

text \<open>
  C1. Normalization strips trailing \<open>.0\<close> segments one at a time until a non-zero
  segment is last or one segment remains, so that \<open>1.0.0.0\<close> becomes \<open>1\<close>. The code
  drops one segment only: \<open>1.0.0.0\<close> becomes \<open>1.0.0\<close>, and the single segment \<open>0\<close>
  becomes the empty string; \<open>2.3.0\<close> and \<open>1.0.1\<close> come out as the claim says, and the
  earlier revision of the function gives \<open>1\<close>.
\<close>

theorem normalizeVersion_strips_one_segment_only:
  "normalizeVersion ''1.0.0.0'' = ''1.0.0'' \<and> normalizeVersion ''1.0.0.0'' \<noteq> ''1''
   \<and> normalizeVersion ''0'' = ''''
   \<and> normalizeVersion ''2.3.0'' = ''2.3'' \<and> normalizeVersion ''1.0.1'' = ''1.0.1''
   \<and> normalizeVersion_loop ''1.0.0.0'' = ''1''"
  by (simp add: normalizeVersion_eq normalizeVersion_loop_def)

text \<open>
  C2. Normalization is idempotent. The code is not: \<open>1.0.0\<close> becomes \<open>1.0\<close>, and
  \<open>1.0\<close> becomes \<open>1\<close>.
\<close>

theorem normalizeVersion_not_idempotent:
  "normalizeVersion ''1.0.0'' = ''1.0''
   \<and> normalizeVersion (normalizeVersion ''1.0.0'') = ''1''
   \<and> normalizeVersion (normalizeVersion ''1.0.0'') \<noteq> normalizeVersion ''1.0.0''"
  by (simp add: normalizeVersion_eq)

text \<open>
  The earlier revision of the function, with its loop, is idempotent: splitting what was
  joined gives the segments back, and the loop leaves nothing more to pop.
\<close>

lemma split_dot_no_dot: "seg \<in> set (split_dot s) \<Longrightarrow> CHR ''.'' \<notin> set seg"
proof (induction s arbitrary: seg)
  case Nil
  then show ?case by simp
next
  case (Cons c cs)
  obtain x xs where sp: "split_dot cs = x # xs"
    using split_dot_not_Nil [of cs] by (cases "split_dot cs") auto
  from Cons.IH [unfolded sp] have ih: "\<And>y. y \<in> set (x # xs) \<Longrightarrow> CHR ''.'' \<notin> set y"
    by blast
  from Cons.prems show ?case
    using ih by (auto simp: sp split: if_splits)
qed

lemma split_dot_plain: "CHR ''.'' \<notin> set x \<Longrightarrow> split_dot (x @ CHR ''.'' # s) = x # split_dot s"
  by (induction x) auto

lemma split_dot_plain_end: "CHR ''.'' \<notin> set x \<Longrightarrow> split_dot x = [x]"
  by (induction x) auto

lemma split_dot_join:
  "xs \<noteq> [] \<Longrightarrow> \<forall>x \<in> set xs. CHR ''.'' \<notin> set x \<Longrightarrow> split_dot (join ''.'' xs) = xs"
proof (induction xs rule: induct_list012)
  case 1
  then show ?case by simp
next
  case (2 x)
  then show ?case by (simp add: split_dot_plain_end)
next
  case (3 x y ys)
  then show ?case by (simp add: split_dot_plain)
qed

declare pop_zeros.simps [simp del]

lemma pop_zeros_props:
  "(parts \<noteq> [] \<longrightarrow> pop_zeros parts \<noteq> [])
   \<and> set (pop_zeros parts) \<subseteq> set parts
   \<and> \<not> (length (pop_zeros parts) > 1 \<and> last (pop_zeros parts) = ''0'')"
proof (induction parts rule: pop_zeros.induct)
  case (1 parts)
  show ?case
  proof (cases "length parts > 1 \<and> last parts = ''0''")
    case True
    then have ne: "butlast parts \<noteq> []"
      by (cases parts rule: rev_cases) auto
    have sub: "set (butlast parts) \<subseteq> set parts"
      by (auto dest: in_set_butlastD)
    from True have eq: "pop_zeros parts = pop_zeros (butlast parts)"
      by (subst pop_zeros.simps) simp
    from "1.IH" [OF True] ne sub show ?thesis
      unfolding eq by auto
  next
    case False
    then have "pop_zeros parts = parts"
      by (subst pop_zeros.simps) auto
    with False show ?thesis by simp
  qed
qed

lemma normalizeVersion_loop_idempotent:
  "normalizeVersion_loop (normalizeVersion_loop v) = normalizeVersion_loop v"
proof -
  let ?p = "pop_zeros (split_dot v)"
  from pop_zeros_props [of "split_dot v"] split_dot_not_Nil [of v]
  have ne: "?p \<noteq> []" and sub: "set ?p \<subseteq> set (split_dot v)"
    and stop: "\<not> (length ?p > 1 \<and> last ?p = ''0'')"
    by auto
  from sub have "\<forall>x \<in> set ?p. CHR ''.'' \<notin> set x"
    using split_dot_no_dot by blast
  with ne have "split_dot (join ''.'' ?p) = ?p"
    by (rule split_dot_join)
  moreover from stop have "pop_zeros ?p = ?p"
    by (subst pop_zeros.simps) auto
  ultimately show ?thesis
    by (simp add: normalizeVersion_loop_def)
qed

section \<open>Properties of the narrowing loop\<close>

lemma filter_same_length: "length (filter P xs) = length xs \<Longrightarrow> filter P xs = xs"
  by (metis filter_True length_filter_less less_irrefl_nat)

lemma reported_append: "reported (a @ b) p = (reported a p \<or> reported b p)"
  by (simp add: reported_def)

lemma reported_Nil: "reported [] p = False"
  by (simp add: reported_def)

lemma while_loop_stop:
  "\<not> loop_guard st \<Longrightarrow> while_loop r t h f st = st"
  by (subst while_loop.simps) (auto simp: loop_guard_def)

lemma while_loop_break:
  "loop_guard st \<Longrightarrow> loop_body r t h f st = (False, st') \<Longrightarrow> while_loop r t h f st = st'"
  by (subst while_loop.simps) (auto simp: loop_guard_def)

lemma while_loop_continue:
  "loop_guard st \<Longrightarrow> loop_body r t h f st = (True, st')
   \<Longrightarrow> while_loop r t h f st = while_loop r t h f st'"
  by (subst while_loop.simps) (auto simp: loop_guard_def)

lemma while_loop_rule:
  assumes stop: "\<And>st. \<not> loop_guard st \<Longrightarrow> Q st st"
    and brk: "\<And>st st'. loop_guard st \<Longrightarrow> loop_body r t h f st = (False, st') \<Longrightarrow> Q st st'"
    and cont: "\<And>st st'. loop_guard st \<Longrightarrow> loop_body r t h f st = (True, st')
                 \<Longrightarrow> Q st' (while_loop r t h f st') \<Longrightarrow> Q st (while_loop r t h f st')"
  shows "Q st (while_loop r t h f st)"
  using assms
proof (induction r t h f st rule: while_loop.induct)
  case (1 r t h f st)
  show ?case
  proof (cases "loop_guard st")
    case False
    then show ?thesis using "1.prems"(1) by (simp add: while_loop_stop)
  next
    case True
    obtain b st' where lb: "loop_body r t h f st = (b, st')"
      by (cases "loop_body r t h f st")
    show ?thesis
    proof (cases b)
      case False
      then show ?thesis using True lb "1.prems"(2) by (simp add: while_loop_break)
    next
      case b: True
      then have bT: "b = True" by simp
      have "Q st' (while_loop r t h f st')"
      proof (rule "1.IH")
        show "retryCount st < maxRetries \<and> 0 < length (compatiblePackages st)"
          using True by (simp add: loop_guard_def)
        show "(b, st') = loop_body r t h f st" using lb by simp
        show "b = True" by (fact bT)
      qed (use "1.prems" in blast)+
      then show ?thesis using True lb b "1.prems"(3) by (simp add: while_loop_continue)
    qed
  qed
qed

lemma while_loop_invariant:
  assumes "P st"
    and "\<And>st b st'. P st \<Longrightarrow> loop_guard st \<Longrightarrow> loop_body r t h f st = (b, st') \<Longrightarrow> P st'"
  shows "P (while_loop r t h f st)"
proof -
  have "P st \<longrightarrow> P (while_loop r t h f st)"
    by (rule while_loop_rule [where Q = "\<lambda>a b. P a \<longrightarrow> P b"]) (use assms(2) in blast)+
  with assms(1) show ?thesis by simp
qed

text \<open>What the \<^verbatim>\<open>catch\<close> block does to each variable.\<close>

lemma catch_block_effects:
  assumes "catch_block err st = (b, st')"
  shows "restores st' = restores st" and "restoreSuccess st' = restoreSuccess st"
    and "lastError st' = Some err"
  using assms by (auto simp: catch_block_def Let_def split: if_splits)

lemma catch_block_break:
  assumes "catch_block err st = (False, st')"
  shows "compatiblePackages st' = compatiblePackages st"
    and "skippedPackages st' = skippedPackages st"
    and "retryCount st' = retryCount st"
  using assms
  by (auto simp: catch_block_def Let_def not_less split: if_splits
           intro!: filter_same_length le_antisym)

lemma catch_block_continue_eq:
  assumes "catch_block err st = (True, st')"
  shows "compatiblePackages st' =
           filter (\<lambda>p. \<not> reported (extractIncompatiblePackages (error_output err)) p)
                  (compatiblePackages st)"
    and "skippedPackages st' = skippedPackages st @ extractIncompatiblePackages (error_output err)"
    and "includes_str (error_output err) ''NU1202''"
  using assms
  by (auto simp: catch_block_def Let_def error_output_def split: if_splits)

lemma catch_block_no_output:
  "error_output err = [] \<Longrightarrow> fst (catch_block err st) = False"
  by (simp add: catch_block_def Let_def error_output_def)


text \<open>One iteration goes on only after a failed resolver run whose output named a
  package of the candidate set.\<close>

lemma loop_body_True:
  assumes "loop_body r t h f st = (True, st')"
  shows "\<exists>e. r (retryCount st) (generateCsproj (compatiblePackages st) t h) = RestoreFailed e
             \<and> catch_block e (st\<lparr>restores := restores st + 1\<rparr>) = (True, st')"
proof (cases "r (retryCount st) (generateCsproj (compatiblePackages st) t h)")
  case (WriteFileFailed msg)
  have "fst (catch_block \<lparr>err_stdout = None, err_stderr = None, err_message = msg\<rparr> st) = False"
    by (rule catch_block_no_output) (simp add: error_output_def text_or_empty_def)
  with assms WriteFileFailed show ?thesis by (simp add: loop_body_def)
next
  case RestoreSucceeded
  let ?st2 = "st\<lparr>restoreSuccess := True, restores := restores st + 1,
                  console := console st @ [SkippedWarning (length (skippedPackages st))
                                                          (skippedList (skippedPackages st))]\<rparr>"
  have "fst (catch_block \<lparr>err_stdout = None, err_stderr = None,
               err_message = ''Packages were skipped: '' @ skippedList (skippedPackages st)\<rparr> ?st2)
        = False"
    by (rule catch_block_no_output) (simp add: error_output_def text_or_empty_def)
  with assms RestoreSucceeded show ?thesis
    by (auto simp: loop_body_def Let_def split: if_splits)
next
  case (RestoreFailed e)
  with assms show ?thesis by (simp add: loop_body_def)
qed

lemma loop_body_False:
  assumes "loop_body r t h f st = (False, st')"
  shows "compatiblePackages st' = compatiblePackages st"
    and "skippedPackages st' = skippedPackages st"
    and "retryCount st' = retryCount st"
  using assms
  by (auto simp: loop_body_def Let_def split: attempt.splits if_splits
           dest: catch_block_break)

lemma loop_body_restores:
  assumes "loop_body r t h f st = (b, st')"
  shows "restores st' \<le> restores st + 1"
  using assms
  by (auto simp: loop_body_def Let_def split: attempt.splits if_splits
           dest!: catch_block_effects(1))

lemma loop_body_True_restoreSuccess:
  assumes "loop_body r t h f st = (True, st')"
  shows "restoreSuccess st' = restoreSuccess st"
  using loop_body_True [OF assms] by (auto dest: catch_block_effects(2))

lemma narrowed_initial: "narrowed packages (initial_state packages out)"
  by (simp add: narrowed_def initial_state_def reported_def)

lemma loop_body_narrowed:
  assumes "narrowed original st" and "loop_body r t h f st = (b, st')"
  shows "narrowed original st'"
proof (cases b)
  case False
  with assms(2) have "loop_body r t h f st = (False, st')" by simp
  from loop_body_False(1,2) [OF this] assms(1) show ?thesis
    by (simp add: narrowed_def)
next
  case True
  with assms(2) have "loop_body r t h f st = (True, st')" by simp
  then obtain e
    where "catch_block e (st\<lparr>restores := restores st + 1\<rparr>) = (True, st')"
    using loop_body_True by blast
  from catch_block_continue_eq(1,2) [OF this] assms(1) show ?thesis
    by (simp add: narrowed_def reported_append)
qed

lemma while_loop_narrowed:
  "narrowed original st \<Longrightarrow> narrowed original (while_loop r t h f st)"
  by (rule while_loop_invariant) (auto dest: loop_body_narrowed)

lemma while_loop_restores:
  "restores (while_loop r t h f st) \<le> restores st + (maxRetries - retryCount st)"
proof (rule while_loop_rule
    [where Q = "\<lambda>a b. restores b \<le> restores a + (maxRetries - retryCount a)"])
  fix st st'
  assume "loop_guard st" "loop_body r t h f st = (False, st')"
  then have "restores st' \<le> restores st + 1" "retryCount st < maxRetries"
    using loop_body_restores [of r t h f st False st'] by (simp_all add: loop_guard_def)
  then show "restores st' \<le> restores st + (maxRetries - retryCount st)"
    by linarith
next
  fix st st'
  assume g: "loop_guard st" and lb: "loop_body r t h f st = (True, st')"
    and ih: "restores (while_loop r t h f st') \<le> restores st' + (maxRetries - retryCount st')"
  from lb have "retryCount st' = retryCount st + 1" by (rule loop_body_continue)
  moreover from lb have "restores st' \<le> restores st + 1" by (rule loop_body_restores)
  moreover from g have "retryCount st < maxRetries" by (simp add: loop_guard_def)
  ultimately show "restores (while_loop r t h f st') \<le> restores st + (maxRetries - retryCount st)"
    using ih by linarith
qed simp


lemma extract_nu1202_output: "extractIncompatiblePackages nu1202_output = [pkgB, pkgZ]"
  by code_simp

lemma example_loop:
  "while_loop rejecting_B ''net472'' False False (initial_state [pkgA, pkgB] []) =
     \<lparr>compatiblePackages = [pkgA], skippedPackages = [pkgB, pkgZ], retryCount = 1,
      restoreSuccess = True,
      lastError = Some \<lparr>err_stdout = Some nu1202_output, err_stderr = Some [],
                          err_message = ''Command failed: dotnet restore''\<rparr>,
      console = [SkippedWarning 2 ''B@2.0, Z@9.9''], restores = 2\<rparr>"
  by code_simp

text \<open>Where the skip list comes from: the states the loop reaches, and the failed runs
  made in them.\<close>

lemma loop_head_trans:
  assumes "loop_head r t h f a b" and "loop_head r t h f b c"
  shows "loop_head r t h f a c"
  using assms(2,1) by (induction rule: loop_head.induct) (auto intro: loop_head.again)

lemma while_loop_last_head:
  "\<exists>s. loop_head r t h f st s
       \<and> skippedPackages (while_loop r t h f st) = skippedPackages s"
proof (rule while_loop_rule
    [where Q = "\<lambda>a b. \<exists>s. loop_head r t h f a s \<and> skippedPackages b = skippedPackages s"])
  fix st
  show "\<exists>s. loop_head r t h f st s \<and> skippedPackages st = skippedPackages s"
    using loop_head.start by blast
next
  fix st st'
  assume "loop_guard st" and "loop_body r t h f st = (False, st')"
  then have "skippedPackages st' = skippedPackages st"
    by (simp add: loop_body_False)
  then show "\<exists>s. loop_head r t h f st s \<and> skippedPackages st' = skippedPackages s"
    using loop_head.start by blast
next
  fix st st'
  assume g: "loop_guard st" and lb: "loop_body r t h f st = (True, st')"
    and "\<exists>s. loop_head r t h f st' s
            \<and> skippedPackages (while_loop r t h f st') = skippedPackages s"
  then obtain s where s: "loop_head r t h f st' s"
    and eq: "skippedPackages (while_loop r t h f st') = skippedPackages s"
    by blast
  from g have "retryCount st < maxRetries \<and> length (compatiblePackages st) > 0"
    by (simp add: loop_guard_def)
  with loop_head.start have "loop_head r t h f st st'"
    using lb by (rule loop_head.again)
  then have "loop_head r t h f st s"
    using s by (rule loop_head_trans)
  with eq show "\<exists>s. loop_head r t h f st s
                 \<and> skippedPackages (while_loop r t h f st') = skippedPackages s"
    by blast
qed

lemma loop_head_named:
  assumes "loop_head r t h f st0 s" and "skippedPackages st0 = []"
  shows "\<forall>q \<in> set (skippedPackages s). \<exists>s' e.
           loop_head r t h f st0 s'
           \<and> retryCount s' < maxRetries \<and> length (compatiblePackages s') > 0
           \<and> r (retryCount s') (generateCsproj (compatiblePackages s') t h) = RestoreFailed e
           \<and> q \<in> set (extractIncompatiblePackages (error_output e))"
  using assms
proof (induction rule: loop_head.induct)
  case start
  then show ?case by simp
next
  case (again st st')
  from again.hyps(3) obtain e
    where e: "r (retryCount st) (generateCsproj (compatiblePackages st) t h) = RestoreFailed e"
      and cb: "catch_block e (st\<lparr>restores := restores st + 1\<rparr>) = (True, st')"
    using loop_body_True by blast
  from catch_block_continue_eq(2) [OF cb]
  have sk: "skippedPackages st' = skippedPackages st @ extractIncompatiblePackages (error_output e)"
    by simp
  show ?case
  proof
    fix q assume "q \<in> set (skippedPackages st')"
    then consider "q \<in> set (skippedPackages st)"
      | "q \<in> set (extractIncompatiblePackages (error_output e))"
      unfolding sk by auto
    then show "\<exists>s' e. loop_head r t h f st0 s'
           \<and> retryCount s' < maxRetries \<and> length (compatiblePackages s') > 0
           \<and> r (retryCount s') (generateCsproj (compatiblePackages s') t h) = RestoreFailed e
           \<and> q \<in> set (extractIncompatiblePackages (error_output e))"
    proof cases
      case 1
      with again.IH again.prems show ?thesis by blast
    next
      case 2
      with again.hyps(1,2) e show ?thesis by blast
    qed
  qed
qed

text \<open>
  C3. Claimed: the skip list holds only packages of the original candidate set, and on
  convergence the skip list and the final candidates are disjoint, free of duplicates,
  and together make up the original set. The code appends to the skip list every
  package the diagnostic names (\<^verbatim>\<open>skippedPackages.push(...incompatible)\<close>), not
  the candidates it removed. What holds, whatever the resolver answers: the final
  candidates are the original packages, in their order, without those that an entry of
  the skip list reports (same id up to case, same normalized version), so they hold no
  duplicates when the original set holds none; and every entry of the skip list was
  named by the output of a failed resolver run that the loop made, in a state it
  reached with its condition true.
\<close>

theorem narrowing_removes_the_reported:
  assumes st: "st = while_loop r t h f (initial_state packages out)"
  shows "compatiblePackages st = filter (\<lambda>p. \<not> reported (skippedPackages st) p) packages
         \<and> (distinct packages \<longrightarrow> distinct (compatiblePackages st))
         \<and> (\<forall>q \<in> set (skippedPackages st). \<exists>s e.
                loop_head r t h f (initial_state packages out) s
                \<and> retryCount s < maxRetries \<and> length (compatiblePackages s) > 0
                \<and> r (retryCount s) (generateCsproj (compatiblePackages s) t h) = RestoreFailed e
                \<and> q \<in> set (extractIncompatiblePackages (error_output e)))"
proof (intro conjI impI)
  have "narrowed packages st"
    unfolding st by (rule while_loop_narrowed) (rule narrowed_initial)
  then show eq: "compatiblePackages st = filter (\<lambda>p. \<not> reported (skippedPackages st) p) packages"
    by (simp add: narrowed_def)
  assume "distinct packages"
  then show "distinct (compatiblePackages st)"
    unfolding eq by (rule distinct_filter)
next
  obtain s where s: "loop_head r t h f (initial_state packages out) s"
    and eq: "skippedPackages st = skippedPackages s"
    unfolding st using while_loop_last_head by blast
  have "skippedPackages (initial_state packages out) = []"
    by (simp add: initial_state_def)
  with s show "\<forall>q \<in> set (skippedPackages st). \<exists>s e.
                loop_head r t h f (initial_state packages out) s
                \<and> retryCount s < maxRetries \<and> length (compatiblePackages s) > 0
                \<and> r (retryCount s) (generateCsproj (compatiblePackages s) t h) = RestoreFailed e
                \<and> q \<in> set (extractIncompatiblePackages (error_output e))"
    unfolding eq by (rule loop_head_named)
qed


theorem narrowing_removes_the_reported_witness:
  "skippedPackages
     (while_loop rejecting_B ''net472'' False False (initial_state [pkgA, pkgB] [])) = [pkgB, pkgZ]
   \<and> compatiblePackages
     (while_loop rejecting_B ''net472'' False False (initial_state [pkgA, pkgB] [])) =
       filter (\<lambda>p. \<not> reported [pkgB, pkgZ] p) [pkgA, pkgB]
   \<and> compatiblePackages
     (while_loop rejecting_B ''net472'' False False (initial_state [pkgA, pkgB] [])) = [pkgA]
   \<and> distinct [pkgA, pkgB]
   \<and> distinct (compatiblePackages
        (while_loop rejecting_B ''net472'' False False (initial_state [pkgA, pkgB] [])))
   \<and> (\<exists>s e. loop_head rejecting_B ''net472'' False False (initial_state [pkgA, pkgB] []) s
         \<and> retryCount s < maxRetries \<and> length (compatiblePackages s) > 0
         \<and> rejecting_B (retryCount s) (generateCsproj (compatiblePackages s) ''net472'' False)
             = RestoreFailed e
         \<and> pkgZ \<in> set (extractIncompatiblePackages (error_output e)))"
proof -
  let ?st = "while_loop rejecting_B ''net472'' False False (initial_state [pkgA, pkgB] [])"
  note inst = narrowing_removes_the_reported
                [OF refl, of rejecting_B "''net472''" False False "[pkgA, pkgB]" "[]"]
  have sk: "skippedPackages ?st = [pkgB, pkgZ]"
    by (simp add: example_loop)
  have "compatiblePackages ?st = filter (\<lambda>p. \<not> reported (skippedPackages ?st) p) [pkgA, pkgB]"
    using inst by (rule conjunct1)
  then have c1: "compatiblePackages ?st = filter (\<lambda>p. \<not> reported [pkgB, pkgZ] p) [pkgA, pkgB]"
    unfolding sk .
  have c2: "compatiblePackages ?st = [pkgA]"
    by (simp add: example_loop)
  have d0: "distinct [pkgA, pkgB]"
    by (simp add: pkgA_def pkgB_def)
  have "distinct [pkgA, pkgB] \<longrightarrow> distinct (compatiblePackages ?st)"
    using inst [THEN conjunct2] by (rule conjunct1)
  with d0 have d1: "distinct (compatiblePackages ?st)"
    by (rule rev_mp)
  have "\<forall>q \<in> set (skippedPackages ?st). \<exists>s e.
          loop_head rejecting_B ''net472'' False False (initial_state [pkgA, pkgB] []) s
          \<and> retryCount s < maxRetries \<and> length (compatiblePackages s) > 0
          \<and> rejecting_B (retryCount s) (generateCsproj (compatiblePackages s) ''net472'' False)
              = RestoreFailed e
          \<and> q \<in> set (extractIncompatiblePackages (error_output e))"
    using inst [THEN conjunct2] by (rule conjunct2)
  moreover have "pkgZ \<in> set (skippedPackages ?st)"
    unfolding sk by simp
  ultimately have c3: "\<exists>s e.
          loop_head rejecting_B ''net472'' False False (initial_state [pkgA, pkgB] []) s
          \<and> retryCount s < maxRetries \<and> length (compatiblePackages s) > 0
          \<and> rejecting_B (retryCount s) (generateCsproj (compatiblePackages s) ''net472'' False)
              = RestoreFailed e
          \<and> pkgZ \<in> set (extractIncompatiblePackages (error_output e))"
    by (rule bspec)
  from sk c1 c2 d0 d1 c3 show ?thesis by (intro conjI)
qed

lemma repeated_loop:
  "while_loop (rejecting_with repeated_output) ''net472'' False False
     (initial_state [pkgA, pkgB] []) =
     \<lparr>compatiblePackages = [pkgA], skippedPackages = [pkgB, pkgB], retryCount = 1,
      restoreSuccess = True,
      lastError = Some \<lparr>err_stdout = Some repeated_output, err_stderr = Some [],
                          err_message = ''Command failed: dotnet restore''\<rparr>,
      console = [SkippedWarning 2 ''B@2.0, B@2.0''], restores = 2\<rparr>"
  by code_simp

text \<open>
  The runs that refute the claim as stated. In the first the loop converges and the
  skip list holds \<open>Z 9.9\<close>, which is not a package of the original set. In the second
  the output reports \<open>B 2.0\<close> twice, and the skip list of the converged loop holds it
  twice.
\<close>

theorem skip_list_outside_original:
  "restoreSuccess
     (while_loop rejecting_B ''net472'' False False (initial_state [pkgA, pkgB] []))
   \<and> compatiblePackages
     (while_loop rejecting_B ''net472'' False False (initial_state [pkgA, pkgB] [])) = [pkgA]
   \<and> skippedPackages
     (while_loop rejecting_B ''net472'' False False (initial_state [pkgA, pkgB] [])) = [pkgB, pkgZ]
   \<and> \<not> set (skippedPackages
     (while_loop rejecting_B ''net472'' False False (initial_state [pkgA, pkgB] [])))
       \<subseteq> set [pkgA, pkgB]
   \<and> set (compatiblePackages
     (while_loop rejecting_B ''net472'' False False (initial_state [pkgA, pkgB] [])))
     \<union> set (skippedPackages
     (while_loop rejecting_B ''net472'' False False (initial_state [pkgA, pkgB] [])))
     \<noteq> set [pkgA, pkgB]
   \<and> distinct [pkgA, pkgB]
   \<and> restoreSuccess
     (while_loop (rejecting_with repeated_output) ''net472'' False False
        (initial_state [pkgA, pkgB] []))
   \<and> skippedPackages
     (while_loop (rejecting_with repeated_output) ''net472'' False False
        (initial_state [pkgA, pkgB] [])) = [pkgB, pkgB]
   \<and> \<not> distinct (skippedPackages
     (while_loop (rejecting_with repeated_output) ''net472'' False False
        (initial_state [pkgA, pkgB] [])))"
proof -
  let ?st = "while_loop rejecting_B ''net472'' False False (initial_state [pkgA, pkgB] [])"
  let ?rep = "while_loop (rejecting_with repeated_output) ''net472'' False False
                (initial_state [pkgA, pkgB] [])"
  have rs: "restoreSuccess ?st" and cp: "compatiblePackages ?st = [pkgA]"
    and sk: "skippedPackages ?st = [pkgB, pkgZ]"
    by (simp_all add: example_loop)
  have z: "pkgZ \<notin> set [pkgA, pkgB]"
    by (simp add: pkgA_def pkgB_def pkgZ_def)
  have zs: "pkgZ \<in> set (skippedPackages ?st)"
    unfolding sk by simp
  from z zs have ns: "\<not> set (skippedPackages ?st) \<subseteq> set [pkgA, pkgB]"
    by blast
  from z zs have ne: "set (compatiblePackages ?st) \<union> set (skippedPackages ?st) \<noteq> set [pkgA, pkgB]"
    by blast
  have d0: "distinct [pkgA, pkgB]"
    by (simp add: pkgA_def pkgB_def)
  have rs2: "restoreSuccess ?rep" and sk2: "skippedPackages ?rep = [pkgB, pkgB]"
    by (simp_all add: repeated_loop)
  have nd: "\<not> distinct (skippedPackages ?rep)"
    unfolding sk2 by simp
  from rs cp sk ns ne d0 rs2 sk2 nd show ?thesis by (intro conjI)
qed

text \<open>How often the resolver runs while one manifest is processed.\<close>

lemma finish_runs: "resolver_runs (finish w lockFilePath st) = restores st"
  by (simp add: finish_def outer_catch_def Let_def split: option.splits sum.splits)

lemma use_existing_runs: "resolver_runs (use_existing w csproj lockFilePath out) = 1"
  by (simp add: use_existing_def Let_def split: option.splits)

lemma initial_loop_restores:
  "restores (while_loop r t h f (initial_state packages out)) \<le> maxRetries"
  using while_loop_restores [of r t h f "initial_state packages out"]
  by (simp add: initial_state_def)

lemma generate_and_restore_runs:
  "resolver_runs (generate_and_restore w defaultTfm failOnSkipped lockFilePath out) \<le> maxRetries"
  by (auto simp: generate_and_restore_def outer_catch_def finish_runs Let_def initial_loop_restores
           split: sum.splits option.splits)

lemma processPackagesConfig_runs:
  "resolver_runs (processPackagesConfig w defaultTfm failOnSkipped) \<le> maxRetries"
proof -
  have "(1::nat) \<le> maxRetries" by (simp add: maxRetries_def)
  then show ?thesis
    by (auto simp: processPackagesConfig_def outer_catch_def use_existing_runs
                   generate_and_restore_runs Let_def
             split: sum.splits option.splits)
qed

text \<open>
  C7. The loop terminates (\<open>while_loop\<close> is total: \<open>maxRetries - retryCount\<close> falls
  at every iteration that goes on), the resolver runs at most \<open>maxRetries = 20\<close> times
  for one manifest, and every iteration that goes on leaves fewer candidates.
\<close>

theorem narrowing_is_bounded:
  "maxRetries = 20
   \<and> resolver_runs (processPackagesConfig w defaultTfm failOnSkipped) \<le> maxRetries
   \<and> restores (while_loop r t h f st) \<le> restores st + (maxRetries - retryCount st)
   \<and> (\<forall>st'. loop_body r t h f st = (True, st')
          \<longrightarrow> length (compatiblePackages st') < length (compatiblePackages st)
              \<and> retryCount st' = retryCount st + 1)"
proof (intro conjI allI impI)
  show "maxRetries = 20" by (simp add: maxRetries_def)
  show "resolver_runs (processPackagesConfig w defaultTfm failOnSkipped) \<le> maxRetries"
    by (rule processPackagesConfig_runs)
  show "restores (while_loop r t h f st) \<le> restores st + (maxRetries - retryCount st)"
    by (rule while_loop_restores)
next
  fix st' assume "loop_body r t h f st = (True, st')"
  then show "length (compatiblePackages st') < length (compatiblePackages st)"
    and "retryCount st' = retryCount st + 1"
    by (rule loop_body_continue)+
qed

lemma example_first_iteration:
  "loop_body rejecting_B ''net472'' False False (initial_state [pkgA, pkgB] []) =
     (True, \<lparr>compatiblePackages = [pkgA], skippedPackages = [pkgB, pkgZ], retryCount = 1,
             restoreSuccess = False,
             lastError = Some \<lparr>err_stdout = Some nu1202_output, err_stderr = Some [],
                                 err_message = ''Command failed: dotnet restore''\<rparr>,
             console = [], restores = 1\<rparr>)"
  by code_simp

lemma example_run:
  "processPackagesConfig example_world ''net472'' False =
     \<lparr>returned = \<lparr>success = True, result_skippedPackages = [pkgB, pkgZ]\<rparr>,
      printed = [Processing ''/repo/app/packages.config'',
                 SkippedWarning 2 ''B@2.0, Z@9.9'',
                 Generated ''/repo/app/packages.lock.json''],
      resolver_runs = 2\<rparr>"
  by code_simp

theorem narrowing_is_bounded_witness:
  "resolver_runs (processPackagesConfig example_world ''net472'' False) = 2
   \<and> resolver_runs (processPackagesConfig example_world ''net472'' False) \<le> maxRetries
   \<and> fst (loop_body rejecting_B ''net472'' False False (initial_state [pkgA, pkgB] [])) = True
   \<and> length (compatiblePackages
        (snd (loop_body rejecting_B ''net472'' False False (initial_state [pkgA, pkgB] []))))
      < length (compatiblePackages (initial_state [pkgA, pkgB] []))"
proof -
  let ?st = "initial_state [pkgA, pkgB] []"
  let ?body = "loop_body rejecting_B ''net472'' False False ?st"
  note inst = narrowing_is_bounded
                [of example_world "''net472''" False rejecting_B "''net472''" False False ?st]
  have r2: "resolver_runs (processPackagesConfig example_world ''net472'' False) = 2"
    by (simp add: example_run)
  from inst have le: "resolver_runs (processPackagesConfig example_world ''net472'' False) \<le> maxRetries"
    by blast
  have go: "fst ?body = True"
    by (simp add: example_first_iteration)
  then have "?body = (True, snd ?body)"
    using prod.collapse [of ?body] by simp
  with inst have "length (compatiblePackages (snd ?body)) < length (compatiblePackages ?st)"
    by blast
  with r2 le go show ?thesis by (intro conjI)
qed

text \<open>A failure that removes no candidate.\<close>

lemma catch_block_stuck:
  assumes "\<not> includes_str (error_output e) ''NU1202''
           \<or> length (filter (\<lambda>pkg. \<not> reported (extractIncompatiblePackages (error_output e)) pkg)
                             (compatiblePackages st))
             = length (compatiblePackages st)"
  shows "catch_block e st =
           (False, st\<lparr>lastError := Some e,
                      console := console st @ (if error_output e = [] \<and> err_message e \<noteq> []
                                               then [ErrorMessage (err_message e)] else [])\<rparr>)"
proof (cases "includes_str (error_output e) ''NU1202''
              \<and> length (extractIncompatiblePackages (error_output e)) > 0")
  case False
  then show ?thesis
    by (auto simp: catch_block_def Let_def error_output_def [symmetric])
next
  case True
  with assms have same:
    "filter (\<lambda>pkg. \<not> reported (extractIncompatiblePackages (error_output e)) pkg)
            (compatiblePackages st) = compatiblePackages st"
    by (auto intro: filter_same_length)
  from True have "error_output e \<noteq> []" by auto
  with True same show ?thesis
    by (simp add: catch_block_def Let_def error_output_def [symmetric])
qed

lemma after_loop_failed:
  assumes "\<not> restoreSuccess st" and "lastError st = Some e"
  shows "after_loop w lockFilePath st =
           (Inr \<lparr>success = False, result_skippedPackages = skippedPackages st\<rparr>,
            console st @ [RestoreFailedHeader]
              @ (case err_stdout e of None \<Rightarrow> [] | Some s \<Rightarrow> [Raw s])
              @ (case err_stderr e of None \<Rightarrow> [] | Some s \<Rightarrow> [Raw s]))"
  using assms by (simp add: after_loop_def)

lemma finish_failed:
  assumes "\<not> restoreSuccess st" and "lastError st = Some e"
  shows "success (returned (finish w lockFilePath st)) = False"
    and "set (console st @ [RestoreFailedHeader]
              @ (case err_stdout e of None \<Rightarrow> [] | Some s \<Rightarrow> [Raw s])
              @ (case err_stderr e of None \<Rightarrow> [] | Some s \<Rightarrow> [Raw s]))
         \<subseteq> set (printed (finish w lockFilePath st))"
  using after_loop_failed [OF assms, of w lockFilePath]
  by (auto simp: finish_def outer_catch_def Let_def split: option.splits)

text \<open>The same from any state in which no restore has succeeded yet.\<close>

lemma stuck_failure_from_state:
  assumes guard: "loop_guard st"
    and unsolved: "\<not> restoreSuccess st"
    and failed: "r (retryCount st) (generateCsproj (compatiblePackages st) t h) = RestoreFailed e"
    and stuck: "\<not> includes_str (error_output e) ''NU1202''
                \<or> length (filter (\<lambda>pkg. \<not> reported (extractIncompatiblePackages (error_output e)) pkg)
                                  (compatiblePackages st))
                  = length (compatiblePackages st)"
  shows "while_loop r t h f st =
           st\<lparr>lastError := Some e, restores := restores st + 1,
              console := console st @ (if error_output e = [] \<and> err_message e \<noteq> []
                                       then [ErrorMessage (err_message e)] else [])\<rparr>
         \<and> success (returned (finish w lockFilePath (while_loop r t h f st))) = False
         \<and> resolver_runs (finish w lockFilePath (while_loop r t h f st)) = restores st + 1
         \<and> RestoreFailedHeader \<in> set (printed (finish w lockFilePath (while_loop r t h f st)))
         \<and> (\<forall>s. err_stdout e = Some s
                \<longrightarrow> Raw s \<in> set (printed (finish w lockFilePath (while_loop r t h f st))))
         \<and> (\<forall>s. err_stderr e = Some s
                \<longrightarrow> Raw s \<in> set (printed (finish w lockFilePath (while_loop r t h f st))))"
proof -
  let ?st1 = "st\<lparr>restores := restores st + 1\<rparr>"
  let ?end = "st\<lparr>lastError := Some e, restores := restores st + 1,
                 console := console st @ (if error_output e = [] \<and> err_message e \<noteq> []
                                          then [ErrorMessage (err_message e)] else [])\<rparr>"
  from stuck have "catch_block e ?st1 =
      (False, ?st1\<lparr>lastError := Some e,
                   console := console ?st1 @ (if error_output e = [] \<and> err_message e \<noteq> []
                                              then [ErrorMessage (err_message e)] else [])\<rparr>)"
    by (intro catch_block_stuck) simp
  with failed have "loop_body r t h f st = (False, ?end)"
    by (simp add: loop_body_def)
  with guard have loop: "while_loop r t h f st = ?end"
    by (rule while_loop_break)
  have u: "\<not> restoreSuccess ?end" and l: "lastError ?end = Some e"
    using unsolved by simp_all
  note fin = finish_failed [OF u l, of w lockFilePath]
  have runs: "resolver_runs (finish w lockFilePath ?end) = restores st + 1"
    by (simp add: finish_runs)
  from fin(2) have hdr: "RestoreFailedHeader \<in> set (printed (finish w lockFilePath ?end))"
    by auto
  from fin(2) have out: "\<forall>s. err_stdout e = Some s \<longrightarrow> Raw s \<in> set (printed (finish w lockFilePath ?end))"
    by auto
  from fin(2) have err: "\<forall>s. err_stderr e = Some s \<longrightarrow> Raw s \<in> set (printed (finish w lockFilePath ?end))"
    by auto
  show ?thesis
    unfolding loop using fin(1) runs hdr out err by (intro conjI) simp_all
qed

lemma loop_head_same_end:
  "loop_head r t h f st0 st \<Longrightarrow> while_loop r t h f st0 = while_loop r t h f st"
proof (induction rule: loop_head.induct)
  case start
  show ?case by simp
next
  case (again st st')
  from again.hyps(2,3) have "while_loop r t h f st = while_loop r t h f st'"
    by (intro while_loop_continue) (simp_all add: loop_guard_def)
  with again.IH show ?case by simp
qed

lemma loop_head_unsolved:
  "loop_head r t h f st0 st \<Longrightarrow> \<not> restoreSuccess st0 \<Longrightarrow> \<not> restoreSuccess st"
  by (induction rule: loop_head.induct) (auto dest: loop_body_True_restoreSuccess)

text \<open>
  C6. At any iteration of the loop where the resolver fails and its output lacks
  \<open>NU1202\<close>, or names packages none of which is a candidate, the loop ends at once:
  the resolver has run once more and not again, the manifest's outcome is a failure, and
  the resolver's raw output is printed after the line
  \<open>Error: dotnet restore failed:\<close>.
\<close>

theorem stuck_failure_ends_the_loop:
  assumes reached: "loop_head r t h f (initial_state packages out) st"
    and guard: "retryCount st < maxRetries \<and> length (compatiblePackages st) > 0"
    and failed: "r (retryCount st) (generateCsproj (compatiblePackages st) t h) = RestoreFailed e"
    and stuck: "\<not> includes_str (error_output e) ''NU1202''
                \<or> length (filter (\<lambda>pkg. \<not> reported (extractIncompatiblePackages (error_output e)) pkg)
                                  (compatiblePackages st))
                  = length (compatiblePackages st)"
  shows "while_loop r t h f (initial_state packages out) =
           st\<lparr>lastError := Some e, restores := restores st + 1,
              console := console st @ (if error_output e = [] \<and> err_message e \<noteq> []
                                       then [ErrorMessage (err_message e)] else [])\<rparr>
         \<and> success (returned (finish w lockFilePath
               (while_loop r t h f (initial_state packages out)))) = False
         \<and> resolver_runs (finish w lockFilePath
               (while_loop r t h f (initial_state packages out))) = restores st + 1
         \<and> RestoreFailedHeader \<in> set (printed (finish w lockFilePath
               (while_loop r t h f (initial_state packages out))))
         \<and> (\<forall>s. err_stdout e = Some s
                \<longrightarrow> Raw s \<in> set (printed (finish w lockFilePath
                      (while_loop r t h f (initial_state packages out)))))
         \<and> (\<forall>s. err_stderr e = Some s
                \<longrightarrow> Raw s \<in> set (printed (finish w lockFilePath
                      (while_loop r t h f (initial_state packages out)))))"
proof -
  have "\<not> restoreSuccess (initial_state packages out)"
    by (simp add: initial_state_def)
  with reached have unsolved: "\<not> restoreSuccess st"
    by (rule loop_head_unsolved)
  from guard have g: "loop_guard st"
    by (simp add: loop_guard_def)
  from reached
  have same: "while_loop r t h f (initial_state packages out) = while_loop r t h f st"
    by (rule loop_head_same_end)
  show ?thesis
    unfolding same
    by (rule stuck_failure_from_state
               [where r = r and t = t and h = h and f = f and st = st and e = e and w = w
                  and lockFilePath = lockFilePath, OF g unsolved failed stuck])
qed

theorem stuck_failure_ends_the_loop_witness:
  "loop_head (failing_with not_found_output) ''net472'' False False
     (initial_state [pkgA, pkgB] []) (initial_state [pkgA, pkgB] [])
   \<and> retryCount (initial_state [pkgA, pkgB] []) < maxRetries
   \<and> length (compatiblePackages (initial_state [pkgA, pkgB] [])) > 0
   \<and> \<not> includes_str not_found_output ''NU1202''
   \<and> success (returned (finish example_world ''/repo/app/packages.lock.json''
         (while_loop (failing_with not_found_output) ''net472'' False False
            (initial_state [pkgA, pkgB] [])))) = False
   \<and> resolver_runs (finish example_world ''/repo/app/packages.lock.json''
         (while_loop (failing_with not_found_output) ''net472'' False False
            (initial_state [pkgA, pkgB] []))) = 1
   \<and> Raw not_found_output \<in> set (printed (finish example_world ''/repo/app/packages.lock.json''
         (while_loop (failing_with not_found_output) ''net472'' False False
            (initial_state [pkgA, pkgB] []))))
   \<and> includes_str foreign_output ''NU1202''
   \<and> extractIncompatiblePackages foreign_output = [pkgZ]
   \<and> filter (\<lambda>pkg. \<not> reported [pkgZ] pkg) [pkgA, pkgB] = [pkgA, pkgB]
   \<and> success (returned (finish example_world ''/repo/app/packages.lock.json''
         (while_loop (failing_with foreign_output) ''net472'' False False
            (initial_state [pkgA, pkgB] [])))) = False
   \<and> resolver_runs (finish example_world ''/repo/app/packages.lock.json''
         (while_loop (failing_with foreign_output) ''net472'' False False
            (initial_state [pkgA, pkgB] []))) = 1
   \<and> Raw foreign_output \<in> set (printed (finish example_world ''/repo/app/packages.lock.json''
         (while_loop (failing_with foreign_output) ''net472'' False False
            (initial_state [pkgA, pkgB] []))))"
proof -
  let ?st = "initial_state [pkgA, pkgB] []"
  let ?e = "\<lambda>diag. \<lparr>err_stdout = Some diag, err_stderr = None,
                         err_message = ''Command failed: dotnet restore''\<rparr>"
  have head: "loop_head (failing_with not_found_output) ''net472'' False False ?st ?st"
    by (rule loop_head.start)
  have guard: "retryCount ?st < maxRetries \<and> length (compatiblePackages ?st) > 0"
    by (simp add: initial_state_def maxRetries_def)
  have failed: "failing_with diag (retryCount ?st)
                  (generateCsproj (compatiblePackages ?st) ''net472'' False) = RestoreFailed (?e diag)"
    for diag
    by (simp add: failing_with_def)
  have out: "error_output (?e diag) = diag" for diag
    by (simp add: error_output_def text_or_empty_def)
  have no_signal: "\<not> includes_str not_found_output ''NU1202''"
    by code_simp
  have signal: "includes_str foreign_output ''NU1202''"
    by code_simp
  have named: "extractIncompatiblePackages foreign_output = [pkgZ]"
    by code_simp
  have kept: "filter (\<lambda>pkg. \<not> reported [pkgZ] pkg) [pkgA, pkgB] = [pkgA, pkgB]"
    by code_simp
  have stuck1: "\<not> includes_str (error_output (?e not_found_output)) ''NU1202''
      \<or> length (filter (\<lambda>pkg. \<not> reported
                   (extractIncompatiblePackages (error_output (?e not_found_output))) pkg)
                 (compatiblePackages ?st)) = length (compatiblePackages ?st)"
    using no_signal by (simp add: out)
  have stuck2: "\<not> includes_str (error_output (?e foreign_output)) ''NU1202''
      \<or> length (filter (\<lambda>pkg. \<not> reported
                   (extractIncompatiblePackages (error_output (?e foreign_output))) pkg)
                 (compatiblePackages ?st)) = length (compatiblePackages ?st)"
    using kept by (simp add: out named initial_state_def)
  note one = stuck_failure_ends_the_loop
    [where r = "failing_with not_found_output" and t = "''net472''" and h = False and f = False
       and packages = "[pkgA, pkgB]" and out = "[]"
       and st = ?st and e = "?e not_found_output" and w = example_world
       and lockFilePath = "''/repo/app/packages.lock.json''",
     OF loop_head.start guard failed stuck1]
  note two = stuck_failure_ends_the_loop
    [where r = "failing_with foreign_output" and t = "''net472''" and h = False and f = False
       and packages = "[pkgA, pkgB]" and out = "[]"
       and st = ?st and e = "?e foreign_output" and w = example_world
       and lockFilePath = "''/repo/app/packages.lock.json''",
     OF loop_head.start guard failed stuck2]
  have r0: "restores ?st = 0"
    by (simp add: initial_state_def)
  have a: "success (returned (finish example_world ''/repo/app/packages.lock.json''
         (while_loop (failing_with not_found_output) ''net472'' False False ?st))) = False"
    using one [THEN conjunct2, THEN conjunct1] .
  have b: "resolver_runs (finish example_world ''/repo/app/packages.lock.json''
         (while_loop (failing_with not_found_output) ''net472'' False False ?st)) = 1"
    using one [THEN conjunct2, THEN conjunct2, THEN conjunct1] r0 by simp
  have c: "Raw not_found_output \<in> set (printed (finish example_world ''/repo/app/packages.lock.json''
         (while_loop (failing_with not_found_output) ''net472'' False False ?st)))"
    using one [THEN conjunct2, THEN conjunct2, THEN conjunct2, THEN conjunct2, THEN conjunct1] by simp
  have d: "success (returned (finish example_world ''/repo/app/packages.lock.json''
         (while_loop (failing_with foreign_output) ''net472'' False False ?st))) = False"
    using two [THEN conjunct2, THEN conjunct1] .
  have e: "resolver_runs (finish example_world ''/repo/app/packages.lock.json''
         (while_loop (failing_with foreign_output) ''net472'' False False ?st)) = 1"
    using two [THEN conjunct2, THEN conjunct2, THEN conjunct1] r0 by simp
  have f: "Raw foreign_output \<in> set (printed (finish example_world ''/repo/app/packages.lock.json''
         (while_loop (failing_with foreign_output) ''net472'' False False ?st)))"
    using two [THEN conjunct2, THEN conjunct2, THEN conjunct2, THEN conjunct2, THEN conjunct1] by simp
  from head guard no_signal a b c signal named kept d e f show ?thesis
    by (intro conjI) simp_all
qed

section \<open>Properties of the candidate set\<close>

lemma collect_packages_fst:
  "fst (collect_packages elems packages targetFramework) =
     packages @ map (\<lambda>x. \<lparr>pkg_id = the (attr_id x), pkg_version = the (attr_version x)\<rparr>)
                    (filter (\<lambda>x. truthy (attr_id x) \<and> truthy (attr_version x)) elems)"
  by (induction elems arbitrary: packages targetFramework) simp_all

lemma loop_body_filter:
  assumes "loop_body r t h f st = (b, st')"
  shows "\<exists>P. compatiblePackages st' = filter P (compatiblePackages st)"
proof (cases b)
  case False
  with assms have "loop_body r t h f st = (False, st')" by simp
  then have "compatiblePackages st' = filter (\<lambda>_. True) (compatiblePackages st)"
    by (simp add: loop_body_False)
  then show ?thesis by blast
next
  case True
  with assms have "loop_body r t h f st = (True, st')" by simp
  then obtain e where "catch_block e (st\<lparr>restores := restores st + 1\<rparr>) = (True, st')"
    using loop_body_True by blast
  from catch_block_continue_eq(1) [OF this] show ?thesis by auto
qed

lemma while_loop_subseq:
  "subseq (compatiblePackages (while_loop r t h f st)) (compatiblePackages st)"
proof (rule while_loop_invariant [where P = "\<lambda>s. subseq (compatiblePackages s) (compatiblePackages st)"])
  show "subseq (compatiblePackages st) (compatiblePackages st)" by simp
next
  fix s b s'
  assume "subseq (compatiblePackages s) (compatiblePackages st)"
    and "loop_body r t h f s = (b, s')"
  moreover from this(2) obtain P where "compatiblePackages s' = filter P (compatiblePackages s)"
    using loop_body_filter by blast
  ultimately show "subseq (compatiblePackages s') (compatiblePackages st)"
    using subseq_order.trans subseq_filter_left by metis
qed

text \<open>
  C9. Claimed: the candidate set is unique by package id, the first occurrence winning,
  and narrowing only removes elements without reordering. The code never compares ids
  while it reads the manifest. What holds: the candidate set is the sequence of the
  manifest's package elements that have a non-empty id and a non-empty version, in the
  manifest's order, repeated ids kept; every iteration of the loop filters the
  candidates, and the final candidates are a subsequence of the initial ones.
\<close>

theorem candidates_keep_manifest_order:
  "(\<exists>targetFramework.
      parsePackagesConfig (Parsed node) =
        Inr (map (\<lambda>x. \<lparr>pkg_id = the (attr_id x), pkg_version = the (attr_version x)\<rparr>)
                 (filter (\<lambda>x. truthy (attr_id x) \<and> truthy (attr_version x))
                         (case node of None \<Rightarrow> [] | Some (Single pkg) \<Rightarrow> [pkg]
                                     | Some (Array packageList) \<Rightarrow> packageList)),
             targetFramework))
   \<and> subseq (compatiblePackages (while_loop r t h f st)) (compatiblePackages st)
   \<and> (\<forall>b st'. loop_body r t h f st = (b, st')
          \<longrightarrow> (\<exists>P. compatiblePackages st' = filter P (compatiblePackages st)))"
proof (intro conjI allI impI)
  have "fst (collect_packages elems [] None) =
          map (\<lambda>x. \<lparr>pkg_id = the (attr_id x), pkg_version = the (attr_version x)\<rparr>)
              (filter (\<lambda>x. truthy (attr_id x) \<and> truthy (attr_version x)) elems)" for elems
    by (simp add: collect_packages_fst)
  then have "collect_packages elems [] None =
          (map (\<lambda>x. \<lparr>pkg_id = the (attr_id x), pkg_version = the (attr_version x)\<rparr>)
               (filter (\<lambda>x. truthy (attr_id x) \<and> truthy (attr_version x)) elems),
           snd (collect_packages elems [] None))" for elems
    by (metis prod.collapse)
  then show "\<exists>targetFramework.
      parsePackagesConfig (Parsed node) =
        Inr (map (\<lambda>x. \<lparr>pkg_id = the (attr_id x), pkg_version = the (attr_version x)\<rparr>)
                 (filter (\<lambda>x. truthy (attr_id x) \<and> truthy (attr_version x))
                         (case node of None \<Rightarrow> [] | Some (Single pkg) \<Rightarrow> [pkg]
                                     | Some (Array packageList) \<Rightarrow> packageList)),
             targetFramework)"
    by (auto simp: parsePackagesConfig_def split: option.splits package_node.splits)
  show "subseq (compatiblePackages (while_loop r t h f st)) (compatiblePackages st)"
    by (rule while_loop_subseq)
next
  fix b st' assume "loop_body r t h f st = (b, st')"
  then show "\<exists>P. compatiblePackages st' = filter P (compatiblePackages st)"
    by (rule loop_body_filter)
qed

lemma parse_manifest_AB: "parsePackagesConfig manifest_AB = Inr ([pkgA, pkgB], None)"
  by code_simp

theorem candidates_keep_manifest_order_witness:
  "parsePackagesConfig manifest_AB = Inr ([pkgA, pkgB], None)
   \<and> compatiblePackages
       (while_loop rejecting_B ''net472'' False False (initial_state [pkgA, pkgB] [])) = [pkgA]
   \<and> subseq [pkgA] [pkgA, pkgB]
   \<and> fst (loop_body rejecting_B ''net472'' False False (initial_state [pkgA, pkgB] [])) = True
   \<and> (\<exists>P. compatiblePackages
             (snd (loop_body rejecting_B ''net472'' False False (initial_state [pkgA, pkgB] [])))
           = filter P [pkgA, pkgB])"
proof -
  let ?st = "initial_state [pkgA, pkgB] []"
  let ?body = "loop_body rejecting_B ''net472'' False False ?st"
  note inst = candidates_keep_manifest_order
                [where r = rejecting_B and t = "''net472''" and h = False and f = False and st = ?st]
  have cs: "compatiblePackages ?st = [pkgA, pkgB]"
    by (simp add: initial_state_def)
  have fin: "compatiblePackages (while_loop rejecting_B ''net472'' False False ?st) = [pkgA]"
    by (simp add: example_loop)
  have sub: "subseq [pkgA] [pkgA, pkgB]"
    using inst [THEN conjunct2, THEN conjunct1] unfolding fin cs .
  have go: "fst ?body = True"
    by (simp add: example_first_iteration)
  have "?body = (fst ?body, snd ?body)" by simp
  with inst [THEN conjunct2, THEN conjunct2]
  have "\<exists>P. compatiblePackages (snd ?body) = filter P (compatiblePackages ?st)"
    by blast
  then have step: "\<exists>P. compatiblePackages (snd ?body) = filter P [pkgA, pkgB]"
    unfolding cs .
  from parse_manifest_AB fin sub go step show ?thesis by (intro conjI)
qed

text \<open>The manifest that refutes the claim as stated: both entries for \<open>A\<close> become
  candidates.\<close>

theorem duplicate_ids_are_kept:
  "parsePackagesConfig manifest_twice_A =
     Inr ([\<lparr>pkg_id = ''A'', pkg_version = ''1.0''\<rparr>, \<lparr>pkg_id = ''A'', pkg_version = ''2.0''\<rparr>], None)
   \<and> \<not> distinct (map pkg_id
          [\<lparr>pkg_id = ''A'', pkg_version = ''1.0''\<rparr>, \<lparr>pkg_id = ''A'', pkg_version = ''2.0''\<rparr>])"
  by (simp add: manifest_twice_A_def parsePackagesConfig_def truthy_def)

section \<open>Properties of processing a manifest\<close>

text \<open>
  C4. A manifest whose parsed package list is empty, with no project descriptor found
  beside it, fails with the no-packages warning, and the resolver never runs.
\<close>

theorem no_packages_fails_without_resolver:
  assumes "findCsprojFile (dirname (packagesConfigPath w)) (readdir w) = Inr None"
    and "parsePackagesConfig (manifest w) = Inr ([], targetFramework)"
  shows "processPackagesConfig w defaultTfm failOnSkipped =
           \<lparr>returned = \<lparr>success = False, result_skippedPackages = []\<rparr>,
            printed = [Processing (packagesConfigPath w), NoPackagesFound],
            resolver_runs = 0\<rparr>"
  using assms
  by (simp add: processPackagesConfig_def generate_and_restore_def Let_def)

theorem no_packages_fails_without_resolver_witness:
  "findCsprojFile (dirname (packagesConfigPath empty_manifest_world))
                  (readdir empty_manifest_world) = Inr None
   \<and> parsePackagesConfig (manifest empty_manifest_world) = Inr ([], None)
   \<and> processPackagesConfig empty_manifest_world ''net472'' False =
       \<lparr>returned = \<lparr>success = False, result_skippedPackages = []\<rparr>,
        printed = [Processing ''/repo/app/packages.config'', NoPackagesFound],
        resolver_runs = 0\<rparr>"
proof -
  have a: "findCsprojFile (dirname (packagesConfigPath empty_manifest_world))
                          (readdir empty_manifest_world) = Inr None"
    by code_simp
  have b: "parsePackagesConfig (manifest empty_manifest_world) = Inr ([], None)"
    by code_simp
  have p: "packagesConfigPath empty_manifest_world = ''/repo/app/packages.config''"
    by (simp add: empty_manifest_world_def example_world_def)
  from no_packages_fails_without_resolver [OF a b, of "''net472''" False]
  have c: "processPackagesConfig empty_manifest_world ''net472'' False =
       \<lparr>returned = \<lparr>success = False, result_skippedPackages = []\<rparr>,
        printed = [Processing ''/repo/app/packages.config'', NoPackagesFound],
        resolver_runs = 0\<rparr>"
    unfolding p .
  from a b c show ?thesis by (intro conjI)
qed

lemma includes_str_prefix: "includes_str (t @ s) t"
proof (cases "t @ s")
  case Nil
  then show ?thesis by simp
next
  case (Cons a l)
  have "prefix t (t @ s)" by simp
  then have "includes_str (a # l) t" by (simp add: Cons)
  then show ?thesis by (simp only: Cons)
qed

lemma findCsprojFile_many:
  assumes "length (filter (\<lambda>e. entry_isFile e \<and> endsWith (entry_name e) ''.csproj'') entries) > 1"
  shows "\<exists>msg. findCsprojFile dir (Inr entries) = Inl msg
               \<and> includes_str msg ''Multiple .csproj files''"
proof -
  let ?msg = "''Multiple .csproj files'' @ '' found in '' @ dir @ '': ''
              @ join '', '' (map basename (map (\<lambda>e. path_join dir (entry_name e))
                   (filter (\<lambda>e. entry_isFile e \<and> endsWith (entry_name e) ''.csproj'') entries)))"
  have inc: "includes_str ?msg ''Multiple .csproj files''"
    by (rule includes_str_prefix)
  from assms have "filter (\<lambda>e. entry_isFile e \<and> endsWith (entry_name e) ''.csproj'') entries \<noteq> []"
    by auto
  with assms inc have "findCsprojFile dir (Inr entries) = Inl ?msg"
    by (simp add: findCsprojFile_def Let_def)
  with inc show ?thesis by blast
qed

lemma findCsprojFile_one:
  assumes "length (filter (\<lambda>e. entry_isFile e \<and> endsWith (entry_name e) ''.csproj'') entries) = 1"
  shows "\<exists>csproj. findCsprojFile dir (Inr entries) = Inr (Some csproj)"
proof -
  from assms have "filter (\<lambda>e. entry_isFile e \<and> endsWith (entry_name e) ''.csproj'') entries \<noteq> []"
    by auto
  with assms show ?thesis
    by (simp add: findCsprojFile_def Let_def)
qed

lemma process_all_eq:
  "process_all ws tfm f t =
     \<lparr>successCount = successCount t
        + length (filter (\<lambda>v. success (returned (processPackagesConfig v tfm f))) ws),
      failCount = failCount t
        + length (filter (\<lambda>v. \<not> success (returned (processPackagesConfig v tfm f))) ws),
      totalSkippedPackages = totalSkippedPackages t
        @ concat (map (\<lambda>v. result_skippedPackages (returned (processPackagesConfig v tfm f))) ws),
      runs = runs t @ map (\<lambda>v. processPackagesConfig v tfm f) ws\<rparr>"
proof (induction ws arbitrary: t)
  case Nil
  show ?case by simp
next
  case (Cons v ws)
  show ?case
    unfolding process_all.simps Let_def Cons.IH by simp
qed

text \<open>
  C8. A manifest with more than one \<open>.csproj\<close> file beside it is reported as an error
  (the message of \<^verbatim>\<open>findCsprojFile\<close>) and counted as failed, without a resolver
  run; every discovered manifest is still processed, each run depending on its own
  manifest only, and the counters of the others are what they are without it.
\<close>

theorem ambiguous_descriptor_fails_alone:
  assumes "readdir w = Inr entries"
    and "length (filter (\<lambda>e. entry_isFile e \<and> endsWith (entry_name e) ''.csproj'') entries) > 1"
  shows "returned (processPackagesConfig w tfm failOnSkipped)
           = \<lparr>success = False, result_skippedPackages = []\<rparr>
         \<and> resolver_runs (processPackagesConfig w tfm failOnSkipped) = 0
         \<and> (\<exists>msg. printed (processPackagesConfig w tfm failOnSkipped)
                      = [Processing (packagesConfigPath w), ErrorMessage msg]
                  \<and> includes_str msg ''Multiple .csproj files'')
         \<and> runs (process_all (before @ w # after) tfm failOnSkipped empty_tally)
             = map (\<lambda>v. processPackagesConfig v tfm failOnSkipped) (before @ w # after)
         \<and> failCount (process_all (before @ w # after) tfm failOnSkipped empty_tally)
             = failCount (process_all (before @ after) tfm failOnSkipped empty_tally) + 1
         \<and> successCount (process_all (before @ w # after) tfm failOnSkipped empty_tally)
             = successCount (process_all (before @ after) tfm failOnSkipped empty_tally)
         \<and> totalSkippedPackages (process_all (before @ w # after) tfm failOnSkipped empty_tally)
             = totalSkippedPackages (process_all (before @ after) tfm failOnSkipped empty_tally)"
proof -
  from findCsprojFile_many [OF assms(2), of "dirname (packagesConfigPath w)"] assms(1)
  obtain msg where msg: "findCsprojFile (dirname (packagesConfigPath w)) (readdir w) = Inl msg"
    and inc: "includes_str msg ''Multiple .csproj files''"
    by auto
  then have run: "processPackagesConfig w tfm failOnSkipped =
      \<lparr>returned = \<lparr>success = False, result_skippedPackages = []\<rparr>,
       printed = [Processing (packagesConfigPath w), ErrorMessage msg],
       resolver_runs = 0\<rparr>"
    by (simp add: processPackagesConfig_def Let_def)
  have a: "returned (processPackagesConfig w tfm failOnSkipped)
           = \<lparr>success = False, result_skippedPackages = []\<rparr>"
    and b: "resolver_runs (processPackagesConfig w tfm failOnSkipped) = 0"
    by (simp_all add: run)
  have c: "\<exists>msg. printed (processPackagesConfig w tfm failOnSkipped)
                      = [Processing (packagesConfigPath w), ErrorMessage msg]
                  \<and> includes_str msg ''Multiple .csproj files''"
    using inc by (simp add: run)
  have d: "runs (process_all (before @ w # after) tfm failOnSkipped empty_tally)
             = map (\<lambda>v. processPackagesConfig v tfm failOnSkipped) (before @ w # after)"
    by (simp add: process_all_eq empty_tally_def)
  have e: "failCount (process_all (before @ w # after) tfm failOnSkipped empty_tally)
             = failCount (process_all (before @ after) tfm failOnSkipped empty_tally) + 1"
    by (simp add: process_all_eq a)
  have f: "successCount (process_all (before @ w # after) tfm failOnSkipped empty_tally)
             = successCount (process_all (before @ after) tfm failOnSkipped empty_tally)"
    by (simp add: process_all_eq a)
  have g: "totalSkippedPackages (process_all (before @ w # after) tfm failOnSkipped empty_tally)
             = totalSkippedPackages (process_all (before @ after) tfm failOnSkipped empty_tally)"
    by (simp add: process_all_eq a)
  from a b c d e f g show ?thesis by (intro conjI)
qed

lemma ambiguous_run:
  "processPackagesConfig ambiguous_world ''net472'' False =
     \<lparr>returned = \<lparr>success = False, result_skippedPackages = []\<rparr>,
      printed = [Processing ''/repo/app/packages.config'',
                 ErrorMessage ''Multiple .csproj files found in /repo/app: App.csproj, Old.csproj''],
      resolver_runs = 0\<rparr>"
  by code_simp

theorem ambiguous_descriptor_fails_alone_witness:
  "readdir ambiguous_world = Inr [\<lparr>entry_name = ''packages.config'', entry_isFile = True\<rparr>,
                                  \<lparr>entry_name = ''App.csproj'', entry_isFile = True\<rparr>,
                                  \<lparr>entry_name = ''Old.csproj'', entry_isFile = True\<rparr>]
   \<and> length (filter (\<lambda>e. entry_isFile e \<and> endsWith (entry_name e) ''.csproj'')
                [\<lparr>entry_name = ''packages.config'', entry_isFile = True\<rparr>,
                 \<lparr>entry_name = ''App.csproj'', entry_isFile = True\<rparr>,
                 \<lparr>entry_name = ''Old.csproj'', entry_isFile = True\<rparr>]) = 2
   \<and> success (returned (processPackagesConfig ambiguous_world ''net472'' False)) = False
   \<and> printed (processPackagesConfig ambiguous_world ''net472'' False) =
       [Processing ''/repo/app/packages.config'',
        ErrorMessage ''Multiple .csproj files found in /repo/app: App.csproj, Old.csproj'']
   \<and> map (\<lambda>r. success (returned r))
         (runs (process_all [ambiguous_world, example_world] ''net472'' False empty_tally))
       = [False, True]
   \<and> failCount (process_all [ambiguous_world, example_world] ''net472'' False empty_tally) = 1
   \<and> successCount (process_all [ambiguous_world, example_world] ''net472'' False empty_tally) = 1"
proof -
  let ?entries = "[\<lparr>entry_name = ''packages.config'', entry_isFile = True\<rparr>,
                   \<lparr>entry_name = ''App.csproj'', entry_isFile = True\<rparr>,
                   \<lparr>entry_name = ''Old.csproj'', entry_isFile = True\<rparr>]"
  have rd: "readdir ambiguous_world = Inr ?entries"
    by (simp add: ambiguous_world_def)
  have two: "length (filter (\<lambda>e. entry_isFile e \<and> endsWith (entry_name e) ''.csproj'') ?entries) = 2"
    by code_simp
  then have many: "length (filter (\<lambda>e. entry_isFile e \<and> endsWith (entry_name e) ''.csproj'') ?entries) > 1"
    by simp
  note inst = ambiguous_descriptor_fails_alone
    [OF rd many, where tfm = "''net472''" and failOnSkipped = False and before = "[]"
       and after = "[example_world]"]
  have a: "success (returned (processPackagesConfig ambiguous_world ''net472'' False)) = False"
    using inst [THEN conjunct1] by simp
  have b: "printed (processPackagesConfig ambiguous_world ''net472'' False) =
       [Processing ''/repo/app/packages.config'',
        ErrorMessage ''Multiple .csproj files found in /repo/app: App.csproj, Old.csproj'']"
    by (simp add: ambiguous_run)
  have alone: "process_all [example_world] ''net472'' False empty_tally =
      \<lparr>successCount = 1, failCount = 0, totalSkippedPackages = [pkgB, pkgZ],
       runs = [processPackagesConfig example_world ''net472'' False]\<rparr>"
    by (simp add: empty_tally_def example_run)
  have c: "map (\<lambda>r. success (returned r))
         (runs (process_all [ambiguous_world, example_world] ''net472'' False empty_tally))
       = [False, True]"
    using inst [THEN conjunct2, THEN conjunct2, THEN conjunct2, THEN conjunct1]
    unfolding append_Nil by (simp del: process_all.simps add: a example_run)
  have d: "failCount (process_all [ambiguous_world, example_world] ''net472'' False empty_tally) = 1"
    using inst [THEN conjunct2, THEN conjunct2, THEN conjunct2, THEN conjunct2, THEN conjunct1]
    unfolding append_Nil alone by (simp del: process_all.simps)
  have e: "successCount (process_all [ambiguous_world, example_world] ''net472'' False empty_tally) = 1"
    using inst [THEN conjunct2, THEN conjunct2, THEN conjunct2, THEN conjunct2, THEN conjunct2,
                THEN conjunct1]
    unfolding append_Nil alone by (simp del: process_all.simps)
  from rd two a b c d e show ?thesis by (intro conjI)
qed

lemma use_existing_cong:
  assumes "restore_existing w' = restore_existing w" and "copy_root_lock w' = copy_root_lock w"
    and "copy_obj_lock w' = copy_obj_lock w"
  shows "use_existing w' csproj lockFilePath out = use_existing w csproj lockFilePath out"
  unfolding use_existing_def assms ..

text \<open>
  C10. With exactly one \<open>.csproj\<close> file beside the manifest, the result is decided by
  the resolver's run on that descriptor and by the copies of the lock file: two calls
  that agree on the path, the directory listing and these three give the same result,
  whatever the manifest holds (also one that cannot be parsed), the default target
  platform and the flag; the resolver runs once.
\<close>

theorem existing_descriptor_ignores_manifest:
  assumes "readdir w = Inr entries"
    and "length (filter (\<lambda>e. entry_isFile e \<and> endsWith (entry_name e) ''.csproj'') entries) = 1"
    and "packagesConfigPath w' = packagesConfigPath w" and "readdir w' = readdir w"
    and "restore_existing w' = restore_existing w" and "copy_root_lock w' = copy_root_lock w"
    and "copy_obj_lock w' = copy_obj_lock w"
  shows "processPackagesConfig w' defaultTfm' failOnSkipped'
           = processPackagesConfig w defaultTfm failOnSkipped
         \<and> processPackagesConfig (w\<lparr>manifest := m\<rparr>) defaultTfm failOnSkipped
           = processPackagesConfig w defaultTfm failOnSkipped
         \<and> resolver_runs (processPackagesConfig w defaultTfm failOnSkipped) = 1"
proof -
  let ?dir = "dirname (packagesConfigPath w)"
  let ?lock = "path_join ?dir ''packages.lock.json''"
  let ?out = "[Processing (packagesConfigPath w)]"
  from findCsprojFile_one [OF assms(2), of ?dir] assms(1)
  obtain csproj where found: "findCsprojFile ?dir (readdir w) = Inr (Some csproj)"
    by auto
  have run: "processPackagesConfig v d fl = use_existing v csproj ?lock ?out"
    if "packagesConfigPath v = packagesConfigPath w" and "readdir v = readdir w" for v d fl
    using that found by (simp add: processPackagesConfig_def Let_def)
  have here: "processPackagesConfig w defaultTfm failOnSkipped = use_existing w csproj ?lock ?out"
    by (rule run) simp_all
  have "processPackagesConfig w' defaultTfm' failOnSkipped' = use_existing w' csproj ?lock ?out"
    using assms(3,4) by (rule run)
  also have "\<dots> = use_existing w csproj ?lock ?out"
    using assms(5-7) by (rule use_existing_cong)
  finally have a: "processPackagesConfig w' defaultTfm' failOnSkipped'
           = processPackagesConfig w defaultTfm failOnSkipped"
    unfolding here .
  have "processPackagesConfig (w\<lparr>manifest := m\<rparr>) defaultTfm failOnSkipped
          = use_existing (w\<lparr>manifest := m\<rparr>) csproj ?lock ?out"
    by (rule run) simp_all
  also have "\<dots> = use_existing w csproj ?lock ?out"
    by (rule use_existing_cong) simp_all
  finally have b: "processPackagesConfig (w\<lparr>manifest := m\<rparr>) defaultTfm failOnSkipped
           = processPackagesConfig w defaultTfm failOnSkipped"
    unfolding here .
  have c: "resolver_runs (processPackagesConfig w defaultTfm failOnSkipped) = 1"
    unfolding here by (rule use_existing_runs)
  from a b c show ?thesis by (intro conjI)
qed

lemma existing_run:
  "processPackagesConfig existing_world ''net472'' False =
     \<lparr>returned = \<lparr>success = True, result_skippedPackages = []\<rparr>,
      printed = [Processing ''/repo/app/packages.config'', UsingExistingCsproj ''App.csproj'',
                 Generated ''/repo/app/packages.lock.json''],
      resolver_runs = 1\<rparr>"
  by code_simp

theorem existing_descriptor_ignores_manifest_witness:
  "readdir existing_world = Inr [\<lparr>entry_name = ''packages.config'', entry_isFile = True\<rparr>,
                                 \<lparr>entry_name = ''App.csproj'', entry_isFile = True\<rparr>]
   \<and> length (filter (\<lambda>e. entry_isFile e \<and> endsWith (entry_name e) ''.csproj'')
                [\<lparr>entry_name = ''packages.config'', entry_isFile = True\<rparr>,
                 \<lparr>entry_name = ''App.csproj'', entry_isFile = True\<rparr>]) = 1
   \<and> processPackagesConfig (existing_world\<lparr>manifest := ParseFailed ''Unexpected end of input''\<rparr>)
         ''net472'' False
       = processPackagesConfig existing_world ''net472'' False
   \<and> processPackagesConfig (existing_world\<lparr>manifest := ParseFailed ''Unexpected end of input''\<rparr>)
         ''net472'' False
       = \<lparr>returned = \<lparr>success = True, result_skippedPackages = []\<rparr>,
          printed = [Processing ''/repo/app/packages.config'', UsingExistingCsproj ''App.csproj'',
                     Generated ''/repo/app/packages.lock.json''],
          resolver_runs = 1\<rparr>"
proof -
  let ?entries = "[\<lparr>entry_name = ''packages.config'', entry_isFile = True\<rparr>,
                   \<lparr>entry_name = ''App.csproj'', entry_isFile = True\<rparr>]"
  have rd: "readdir existing_world = Inr ?entries"
    by (simp add: existing_world_def)
  have one: "length (filter (\<lambda>e. entry_isFile e \<and> endsWith (entry_name e) ''.csproj'') ?entries) = 1"
    by code_simp
  note inst = existing_descriptor_ignores_manifest
    [OF rd one refl refl refl refl refl, where defaultTfm = "''net472''" and failOnSkipped = False
       and m = "ParseFailed ''Unexpected end of input''"]
  note same = inst [THEN conjunct2, THEN conjunct1]
  from rd one same same [unfolded existing_run] show ?thesis by (intro conjI)
qed

section \<open>The exit status\<close>

text \<open>Once a restore has succeeded and the lock file is copied, the manifest's outcome
  is a success that carries the skip list, whatever the flag.\<close>

lemma finish_converged:
  assumes "restoreSuccess st" and "copy_lock_error w = None" and "rm_error w = None"
  shows "returned (finish w lockFilePath st)
           = \<lparr>success = True, result_skippedPackages = skippedPackages st\<rparr>"
  using assms by (simp add: finish_def after_loop_def)




end
